theory Spec2Isabelle
  imports Main "HOL-Library.AList" "HOL-Library.Char_ord" "HOL-Library.List_Lexorder"
    "HOL-Library.Word"
begin

section \<open>JavaScript values, JSON text and Buffers\<close>

text \<open>
  The persistence layer of \<^verbatim>\<open>lib/persistence/redis_cluster.js\<close> moves JavaScript
  objects through \<^verbatim>\<open>JSON.stringify\<close>, a Redis cluster and \<^verbatim>\<open>JSON.parse\<close>.
  A JavaScript value is a tree; an object is the list of its own enumerable properties in
  the order \<^verbatim>\<open>Object.keys\<close> lists them. A \<^verbatim>\<open>Buffer\<close> is a list of bytes.
  The value \<^verbatim>\<open>undefined\<close> is not a constructor: where the code may read it
  (a missing property, a missing callback argument) the model uses \<open>option\<close> and
  \<open>None\<close> stands for \<^verbatim>\<open>undefined\<close>.
\<close>

datatype jsval =
    JNull
  | JBool bool
  | JNum int
  | JStr string
  | JArr "jsval list"
  | JObj "(string \<times> jsval) list"
  | JBuf "8 word list"

text \<open>Exceptions thrown by the platform or by the Matcher, and error replies of the store.\<close>

datatype exn = SyntaxError | TypeError | ValidationError

datatype error = StoreUnavailable | WrongType

text \<open>
  A string held by the store is represented by what \<^verbatim>\<open>JSON.parse\<close> makes of it:
  \<open>Json v\<close> is a text of the JSON grammar that denotes \<open>v\<close>, \<open>NotJson s\<close> is the
  string \<open>s\<close>, which is outside the grammar.
\<close>

datatype blob = Json jsval | NotJson string

text \<open>
  \<^verbatim>\<open>JSON.stringify\<close> writes a Buffer as the array of its bytes (its \<^verbatim>\<open>toJSON\<close>
  in Node 0.10); every other value is written as it is.
\<close>

primrec toJSON :: "jsval \<Rightarrow> jsval" where
  "toJSON JNull = JNull"
| "toJSON (JBool b) = JBool b"
| "toJSON (JNum n) = JNum n"
| "toJSON (JStr s) = JStr s"
| "toJSON (JArr xs) = JArr (map toJSON xs)"
| "toJSON (JObj fs) = JObj (map (map_prod (\<lambda>k. k) toJSON) fs)"
| "toJSON (JBuf bs) = JArr (map (\<lambda>b. JNum (uint b)) bs)"

definition JSON_stringify :: "jsval \<Rightarrow> blob" where
  "JSON_stringify v = Json (toJSON v)"

text \<open>
  The variable a reply callback receives as its second argument: \<^verbatim>\<open>undefined\<close> when
  the command failed (the callback is called with the error alone), \<^verbatim>\<open>null\<close> when
  the key or field is absent, the stored string otherwise.
\<close>

datatype result = Undefined | Null | Text blob

text \<open>
  \<^verbatim>\<open>JSON.parse(x)\<close> converts \<open>x\<close> to a string first: \<^verbatim>\<open>null\<close> becomes the
  text \<^verbatim>\<open>null\<close>, \<^verbatim>\<open>undefined\<close> the text \<^verbatim>\<open>undefined\<close>, which is no JSON.
\<close>

fun JSON_parse :: "result \<Rightarrow> exn + jsval" where
  "JSON_parse Undefined = Inl SyntaxError"
| "JSON_parse Null = Inr JNull"
| "JSON_parse (Text (Json v)) = Inr (toJSON v)"
| "JSON_parse (Text (NotJson s)) = Inl SyntaxError"

text \<open>Truthiness (\<^verbatim>\<open>if (x)\<close>, \<^verbatim>\<open>!x\<close>, \<^verbatim>\<open>x || y\<close>) of a reply and of a value.\<close>

fun truthy_result :: "result \<Rightarrow> bool" where
  "truthy_result Undefined = False"
| "truthy_result Null = False"
| "truthy_result (Text (Json v)) = True"
| "truthy_result (Text (NotJson s)) = (s \<noteq> [])"

fun truthy :: "jsval \<Rightarrow> bool" where
  "truthy JNull = False"
| "truthy (JBool b) = b"
| "truthy (JNum n) = (n \<noteq> 0)"
| "truthy (JStr s) = (s \<noteq> [])"
| "truthy (JArr xs) = True"
| "truthy (JObj fs) = True"
| "truthy (JBuf bs) = True"

text \<open>\<^verbatim>\<open>typeof x === 'object'\<close>: true of \<^verbatim>\<open>null\<close>, arrays, objects and Buffers.\<close>

fun typeof_object :: "jsval \<Rightarrow> bool" where
  "typeof_object JNull = True"
| "typeof_object (JArr xs) = True"
| "typeof_object (JObj fs) = True"
| "typeof_object (JBuf bs) = True"
| "typeof_object v = False"

text \<open>Decimal digits of a number, for array indices and \<^verbatim>\<open>String(n)\<close>.\<close>

fun show_nat :: "nat \<Rightarrow> string" where
  "show_nat n =
     (if n < 10 then [char_of (48 + n)]
      else show_nat (n div 10) @ [char_of (48 + n mod 10)])"

declare show_nat.simps [simp del]

definition show_int :: "int \<Rightarrow> string" where
  "show_int i = (if i < 0 then CHR ''-'' # show_nat (nat (- i)) else show_nat (nat i))"

text \<open>
  \<^verbatim>\<open>Object.keys\<close> (ECMAScript 5): the property names of an object, the indices of an
  array or a Buffer, a TypeError on anything else.
\<close>

fun Object_keys :: "jsval \<Rightarrow> exn + string list" where
  "Object_keys (JObj fs) = Inr (map fst fs)"
| "Object_keys (JArr xs) = Inr (map show_nat [0..<length xs])"
| "Object_keys (JBuf bs) = Inr (map show_nat [0..<length bs])"
| "Object_keys v = Inl TypeError"

text \<open>Property read \<^verbatim>\<open>o.k\<close> on an object, and property write \<^verbatim>\<open>o.k = v\<close>.\<close>

fun get_field :: "string \<Rightarrow> jsval \<Rightarrow> jsval option" where
  "get_field k (JObj fs) = map_of fs k"
| "get_field k v = None"

fun set_field :: "string \<Rightarrow> jsval \<Rightarrow> jsval \<Rightarrow> jsval" where
  "set_field k x (JObj fs) = JObj (AList.update k x fs)"
| "set_field k x v = v"

text \<open>
  \<^verbatim>\<open>String(x)\<close>, applied by string concatenation, by the store client to its
  arguments, and by the conversion of an object to a number. An array is the
  comma-separated list of its elements, with \<^verbatim>\<open>null\<close> written as the empty string.
\<close>

fun join :: "string list \<Rightarrow> string" where
  "join [] = []"
| "join [s] = s"
| "join (s # t # ts) = s @ CHR '','' # join (t # ts)"

primrec js_string :: "jsval \<Rightarrow> string" where
  "js_string JNull = ''null''"
| "js_string (JBool b) = (if b then ''true'' else ''false'')"
| "js_string (JNum n) = show_int n"
| "js_string (JStr s) = s"
| "js_string (JBuf bs) = map (\<lambda>b. char_of (unat b)) bs"
| "js_string (JObj fs) = ''[object Object]''"
| "js_string (JArr xs) =
     join (map (\<lambda>(x, s). if x = JNull then [] else s) (zip xs (map js_string xs)))"

fun String_of :: "jsval option \<Rightarrow> string" where
  "String_of None = ''undefined''"
| "String_of (Some v) = js_string v"

text \<open>
  The conversion of a string to a number, as far as the integer that ends up in a byte is
  concerned: white space around the text is dropped; the empty text is 0; a text
  \<^verbatim>\<open>0x\<close> with hexadecimal digits is their value; a decimal literal, with an optional
  sign, fraction and exponent, is its value cut towards zero; anything else is
  \<^verbatim>\<open>NaN\<close> or an infinity, which a byte stores as 0. Numbers are the integers, so
  the rounding of large literals to doubles is not followed.
\<close>

definition is_space :: "char \<Rightarrow> bool" where
  "is_space c = (c \<in> set [CHR '' '', CHR 0x09, CHR 0x0A, CHR 0x0B, CHR 0x0C, CHR 0x0D])"

definition trim :: "string \<Rightarrow> string" where
  "trim s = rev (dropWhile is_space (rev (dropWhile is_space s)))"

definition is_digit :: "char \<Rightarrow> bool" where
  "is_digit c = (48 \<le> (of_char c :: nat) \<and> (of_char c :: nat) \<le> 57)"

definition decimal :: "string \<Rightarrow> nat" where
  "decimal s = foldl (\<lambda>n c. 10 * n + (of_char c - 48)) 0 s"

definition hex_digit :: "char \<Rightarrow> nat option" where
  "hex_digit c =
     (let n = (of_char c :: nat)
      in if 48 \<le> n \<and> n \<le> 57 then Some (n - 48)
         else if 65 \<le> n \<and> n \<le> 70 then Some (n - 55)
         else if 97 \<le> n \<and> n \<le> 102 then Some (n - 87)
         else None)"

definition hexadecimal :: "string \<Rightarrow> nat" where
  "hexadecimal s = foldl (\<lambda>n c. 16 * n + (case hex_digit c of Some d \<Rightarrow> d | None \<Rightarrow> 0)) 0 s"

text \<open>An unsigned decimal literal: digits, an optional fraction, an optional exponent.\<close>

definition unsigned_decimal :: "string \<Rightarrow> int" where
  "unsigned_decimal s =
     (let mantissa = takeWhile (\<lambda>c. c \<noteq> CHR ''e'' \<and> c \<noteq> CHR ''E'') s;
          after = dropWhile (\<lambda>c. c \<noteq> CHR ''e'' \<and> c \<noteq> CHR ''E'') s;
          whole = takeWhile (\<lambda>c. c \<noteq> CHR ''.'') mantissa;
          fraction = drop 1 (dropWhile (\<lambda>c. c \<noteq> CHR ''.'') mantissa);
          exponent = drop 1 after;
          power = (if exponent \<noteq> [] \<and> hd exponent \<in> set ''+-'' then tl exponent else exponent)
      in if list_all is_digit whole \<and> list_all is_digit fraction \<and> whole @ fraction \<noteq> []
            \<and> (after = [] \<or> power \<noteq> [] \<and> list_all is_digit power)
         then (let shift = (if exponent \<noteq> [] \<and> hd exponent = CHR ''-''
                            then - int (decimal power) else int (decimal power))
                           - int (length fraction)
               in if 0 \<le> shift then int (decimal (whole @ fraction)) * 10 ^ nat shift
                  else int (decimal (whole @ fraction)) div 10 ^ nat (- shift))
         else 0)"

definition number_of_string :: "string \<Rightarrow> int" where
  "number_of_string s =
     (let t = trim s
      in if t = [] then 0
         else if take 2 t \<in> set [''0x'', ''0X'']
         then (if drop 2 t \<noteq> [] \<and> list_all (\<lambda>c. hex_digit c \<noteq> None) (drop 2 t)
               then int (hexadecimal (drop 2 t)) else 0)
         else if hd t = CHR ''-'' then - unsigned_decimal (tl t)
         else if hd t = CHR ''+'' then unsigned_decimal (tl t)
         else unsigned_decimal t)"

text \<open>
  The integer stored in a byte for a value: \<^verbatim>\<open>null\<close> is 0, \<^verbatim>\<open>true\<close> is 1, a
  string is converted as above, and an array, an object or a Buffer is converted through
  its \<^verbatim>\<open>String\<close>.
\<close>

fun to_int :: "jsval \<Rightarrow> int" where
  "to_int JNull = 0"
| "to_int (JBool b) = (if b then 1 else 0)"
| "to_int (JNum n) = n"
| "to_int (JStr s) = number_of_string s"
| "to_int v = number_of_string (js_string v)"

definition byte_of :: "jsval \<Rightarrow> 8 word" where
  "byte_of v = word_of_int (to_int v)"

text \<open>
  \<^verbatim>\<open>new Buffer(x)\<close> as in Node 0.10: an array gives the Buffer of its elements taken
  modulo 256, a string the Buffer of its bytes, a Buffer a copy of it; \<^verbatim>\<open>undefined\<close>,
  \<^verbatim>\<open>null\<close> and booleans are a TypeError. A number \<open>n\<close> allocates \<open>n\<close> bytes, whose
  contents (memory that is not initialised) are taken to be zero. An object is read
  through its \<^verbatim>\<open>length\<close>: when that is a number the object is array-like and its
  elements are copied, a missing one as 0; otherwise the converted length is allocated.
\<close>

fun new_Buffer :: "jsval option \<Rightarrow> exn + jsval" where
  "new_Buffer None = Inl TypeError"
| "new_Buffer (Some JNull) = Inl TypeError"
| "new_Buffer (Some (JBool b)) = Inl TypeError"
| "new_Buffer (Some (JNum n)) = Inr (JBuf (replicate (nat n) 0))"
| "new_Buffer (Some (JStr s)) = Inr (JBuf (map (\<lambda>c. of_char c) s))"
| "new_Buffer (Some (JArr xs)) = Inr (JBuf (map byte_of xs))"
| "new_Buffer (Some (JBuf bs)) = Inr (JBuf bs)"
| "new_Buffer (Some (JObj fs)) =
     Inr (JBuf (case map_of fs ''length'' of
                  None \<Rightarrow> []
                | Some (JNum n) \<Rightarrow>
                    map (\<lambda>i. case map_of fs (show_nat i) of None \<Rightarrow> 0 | Some x \<Rightarrow> byte_of x)
                      [0..<nat n]
                | Some v \<Rightarrow> replicate (nat (to_int v)) 0))"

text \<open>
  \<^verbatim>\<open>s.split(c)\<close> for a one-character separator: the pieces between the separators,
  always at least one piece; and \<^verbatim>\<open>xs[i]\<close>, which is \<^verbatim>\<open>undefined\<close> out of range.
\<close>

fun split :: "char \<Rightarrow> string \<Rightarrow> string list" where
  "split c [] = [[]]"
| "split c (x # xs) =
     (if x = c then [] # split c xs
      else (case split c xs of
              [] \<Rightarrow> [[x]]
            | t # ts \<Rightarrow> (x # t) # ts))"

definition index :: "'a list \<Rightarrow> nat \<Rightarrow> 'a option" where
  "index xs i = (if i < length xs then Some (xs ! i) else None)"

section \<open>The Matcher\<close>

text \<open>
  Modelled from the spec: the Matcher of \<^verbatim>\<open>lib/persistence/matcher.js\<close>, which is not
  among the sources. It holds (pattern, subscriber) pairs. A topic and a pattern are split
  into levels at \<^verbatim>\<open>/\<close>; \<^verbatim>\<open>+\<close> matches exactly one level, \<^verbatim>\<open>#\<close> matches zero
  or more trailing levels and is only legal as the final level.
\<close>

type_synonym 'v matcher = "(string \<times> 'v) list"

fun matches :: "string list \<Rightarrow> string list \<Rightarrow> bool" where
  "matches [] [] = True"
| "matches [] (t # ts) = False"
| "matches (p # ps) ts =
     (if p = ''#'' then True
      else (case ts of
              [] \<Rightarrow> False
            | t # ts' \<Rightarrow> (p = ''+'' \<or> p = t) \<and> matches ps ts'))"

text \<open>
  Modelled from the spec: a malformed pattern is one with \<^verbatim>\<open>#\<close> not in final position.
\<close>

definition valid_pattern :: "string \<Rightarrow> bool" where
  "valid_pattern p = (''#'' \<notin> set (butlast (split CHR ''/'' p)))"

text \<open>
  Modelled from the spec: \<^verbatim>\<open>add(pattern, subscriberId)\<close> inserts the subscriber under
  the pattern, is idempotent, and rejects a malformed pattern with a validation error.
\<close>

definition add :: "string \<Rightarrow> 'v \<Rightarrow> 'v matcher \<Rightarrow> exn + 'v matcher" where
  "add p v m =
     (if \<not> valid_pattern p then Inl ValidationError
      else if (p, v) \<in> set m then Inr m
      else Inr (m @ [(p, v)]))"

text \<open>
  Modelled from the spec: \<^verbatim>\<open>remove(pattern, subscriberId)\<close> removes the association
  and is a no-op if it is absent.
\<close>

definition remove :: "string \<Rightarrow> 'v \<Rightarrow> 'v matcher \<Rightarrow> 'v matcher" where
  "remove p v m = filter (\<lambda>e. e \<noteq> (p, v)) m"

text \<open>
  Modelled from the spec: \<^verbatim>\<open>match(topic)\<close> returns every subscriber whose pattern
  matches the topic, without duplicates.
\<close>

definition match :: "'v matcher \<Rightarrow> string \<Rightarrow> 'v list" where
  "match m topic =
     remdups (map snd (filter (\<lambda>e. matches (split CHR ''/'' (fst e)) (split CHR ''/'' topic)) m))"

section \<open>The store\<close>

text \<open>
  The Redis cluster behind \<^verbatim>\<open>this._rc\<close>: one keyspace of strings, lists and hashes,
  the time-to-live given with \<^verbatim>\<open>SET ... PX\<close>, the messages published, the commands
  issued so far, and the outcome of the commands to come: \<open>faults\<close> holds one flag for
  each, \<open>True\<close> for a command that fails and leaves the store as it is; past the end of
  the list every command succeeds. The client calls each callback once, with the error
  alone or with the reply, in the order the commands were issued.
\<close>

datatype rval = RString blob | RList "blob list" | RHash "(string \<times> blob) list"

datatype command =
    GET string
  | SET string blob nat
  | DEL string
  | KEYS string
  | HSET string string blob
  | HGET string string
  | HKEYS string
  | LPUSH string blob
  | RPOP string
  | PUBLISH string blob
  | DISCONNECT

record redis =
  keyspace :: "(string \<times> rval) list"
  expiry :: "(string \<times> nat) list"
  published :: "(string \<times> blob) list"
  issued :: "command list"
  faults :: "bool list"

datatype 'a reply = Failure error | Success 'a

fun err_of :: "'a reply \<Rightarrow> error option" where
  "err_of (Failure e) = Some e"
| "err_of (Success x) = None"

fun result_of :: "blob option reply \<Rightarrow> result" where
  "result_of (Failure e) = Undefined"
| "result_of (Success None) = Null"
| "result_of (Success (Some t)) = Text t"

definition issue :: "command \<Rightarrow> redis \<Rightarrow> bool \<times> redis" where
  "issue c r =
     (case faults r of
        [] \<Rightarrow> (False, r\<lparr>issued := issued r @ [c]\<rparr>)
      | f # fs \<Rightarrow> (f, r\<lparr>issued := issued r @ [c], faults := fs\<rparr>))"

definition rc_get :: "string \<Rightarrow> redis \<Rightarrow> blob option reply \<times> redis" where
  "rc_get key r =
     (case issue (GET key) r of (f, r') \<Rightarrow>
        if f then (Failure StoreUnavailable, r')
        else (case map_of (keyspace r') key of
                None \<Rightarrow> (Success None, r')
              | Some (RString t) \<Rightarrow> (Success (Some t), r')
              | Some _ \<Rightarrow> (Failure WrongType, r')))"

definition rc_set :: "string \<Rightarrow> blob \<Rightarrow> nat \<Rightarrow> redis \<Rightarrow> unit reply \<times> redis" where
  "rc_set key t px r =
     (case issue (SET key t px) r of (f, r') \<Rightarrow>
        if f then (Failure StoreUnavailable, r')
        else (Success (),
              r'\<lparr>keyspace := AList.update key (RString t) (keyspace r'),
                 expiry := AList.update key px (expiry r')\<rparr>))"

definition rc_del :: "string \<Rightarrow> redis \<Rightarrow> unit reply \<times> redis" where
  "rc_del key r =
     (case issue (DEL key) r of (f, r') \<Rightarrow>
        if f then (Failure StoreUnavailable, r')
        else (Success (),
              r'\<lparr>keyspace := AList.delete key (keyspace r'),
                 expiry := AList.delete key (expiry r')\<rparr>))"

text \<open>
  \<^verbatim>\<open>KEYS\<close> is only called with a literal followed by \<^verbatim>\<open>*\<close>: the keys that start
  with the literal.
\<close>

definition rc_keys :: "string \<Rightarrow> redis \<Rightarrow> string list reply \<times> redis" where
  "rc_keys pat r =
     (case issue (KEYS pat) r of (f, r') \<Rightarrow>
        if f then (Failure StoreUnavailable, r')
        else (Success (filter (\<lambda>k. take (length pat - 1) k = butlast pat)
                         (map fst (keyspace r'))), r'))"

definition rc_hset :: "string \<Rightarrow> string \<Rightarrow> blob \<Rightarrow> redis \<Rightarrow> unit reply \<times> redis" where
  "rc_hset key field t r =
     (case issue (HSET key field t) r of (f, r') \<Rightarrow>
        if f then (Failure StoreUnavailable, r')
        else (case map_of (keyspace r') key of
                None \<Rightarrow>
                  (Success (), r'\<lparr>keyspace := AList.update key (RHash [(field, t)]) (keyspace r')\<rparr>)
              | Some (RHash h) \<Rightarrow>
                  (Success (),
                   r'\<lparr>keyspace := AList.update key (RHash (AList.update field t h)) (keyspace r')\<rparr>)
              | Some _ \<Rightarrow> (Failure WrongType, r')))"

definition rc_hget :: "string \<Rightarrow> string \<Rightarrow> redis \<Rightarrow> blob option reply \<times> redis" where
  "rc_hget key field r =
     (case issue (HGET key field) r of (f, r') \<Rightarrow>
        if f then (Failure StoreUnavailable, r')
        else (case map_of (keyspace r') key of
                None \<Rightarrow> (Success None, r')
              | Some (RHash h) \<Rightarrow> (Success (map_of h field), r')
              | Some _ \<Rightarrow> (Failure WrongType, r')))"

definition rc_hkeys :: "string \<Rightarrow> redis \<Rightarrow> string list reply \<times> redis" where
  "rc_hkeys key r =
     (case issue (HKEYS key) r of (f, r') \<Rightarrow>
        if f then (Failure StoreUnavailable, r')
        else (case map_of (keyspace r') key of
                None \<Rightarrow> (Success [], r')
              | Some (RHash h) \<Rightarrow> (Success (map fst h), r')
              | Some _ \<Rightarrow> (Failure WrongType, r')))"

text \<open>\<^verbatim>\<open>LPUSH\<close> inserts at the head of the list, \<^verbatim>\<open>RPOP\<close> takes from its tail.\<close>

definition rc_lpush :: "string \<Rightarrow> blob \<Rightarrow> redis \<Rightarrow> unit reply \<times> redis" where
  "rc_lpush key t r =
     (case issue (LPUSH key t) r of (f, r') \<Rightarrow>
        if f then (Failure StoreUnavailable, r')
        else (case map_of (keyspace r') key of
                None \<Rightarrow> (Success (), r'\<lparr>keyspace := AList.update key (RList [t]) (keyspace r')\<rparr>)
              | Some (RList xs) \<Rightarrow>
                  (Success (), r'\<lparr>keyspace := AList.update key (RList (t # xs)) (keyspace r')\<rparr>)
              | Some _ \<Rightarrow> (Failure WrongType, r')))"

definition rc_rpop :: "string \<Rightarrow> redis \<Rightarrow> blob option reply \<times> redis" where
  "rc_rpop key r =
     (case issue (RPOP key) r of (f, r') \<Rightarrow>
        if f then (Failure StoreUnavailable, r')
        else (case map_of (keyspace r') key of
                None \<Rightarrow> (Success None, r')
              | Some (RList xs) \<Rightarrow>
                  (if xs = [] then (Success None, r')
                   else if butlast xs = []
                   then (Success (Some (last xs)), r'\<lparr>keyspace := AList.delete key (keyspace r')\<rparr>)
                   else (Success (Some (last xs)),
                         r'\<lparr>keyspace := AList.update key (RList (butlast xs)) (keyspace r')\<rparr>))
              | Some _ \<Rightarrow> (Failure WrongType, r')))"

definition rc_publish :: "string \<Rightarrow> blob \<Rightarrow> redis \<Rightarrow> unit reply \<times> redis" where
  "rc_publish chan t r =
     (case issue (PUBLISH chan t) r of (f, r') \<Rightarrow>
        if f then (Failure StoreUnavailable, r')
        else (Success (), r'\<lparr>published := published r' @ [(chan, t)]\<rparr>))"

definition rc_disconnect :: "redis \<Rightarrow> unit reply \<times> redis" where
  "rc_disconnect r =
     (case issue DISCONNECT r of (f, r') \<Rightarrow>
        if f then (Failure StoreUnavailable, r') else (Success (), r'))"

section \<open>The persistence object\<close>

text \<open>
  A client session as the broker hands it over: its identifier, its \<^verbatim>\<open>clean\<close> flag and
  its subscriptions, a quality-of-service level for each topic pattern, in the order
  \<^verbatim>\<open>Object.keys\<close> lists the patterns. A packet is a JavaScript object.
\<close>

record subscription =
  qos :: nat

record client =
  client_id :: string
  clean :: bool
  subscriptions :: "(string \<times> subscription) list"

text \<open>
  The fields of \<^verbatim>\<open>RedisClusterPersistence\<close>: the store client \<^verbatim>\<open>_rc\<close>, the Matcher
  \<^verbatim>\<open>_subMatcher\<close>, the identity \<^verbatim>\<open>_uuid\<close> and the options it reads. A subscriber
  of \<^verbatim>\<open>_subMatcher\<close> is a client identifier, or \<^verbatim>\<open>undefined\<close> (\<open>None\<close>) when it
  was read from a key with fewer than three tokens.
\<close>

record world =
  rc :: redis
  subMatcher :: "string option matcher"
  uuid :: string
  channel :: string
  ttl_subscriptions :: nat

text \<open>The key namespaces.\<close>

definition subs :: string where
  "subs = ''{persistence:subs}:''"

definition packets :: string where
  "packets = ''{persistence:packets}:''"

definition retained :: string where
  "retained = ''{persistence:retained}''"

text \<open>
  What one operation does, run until no reply is outstanding: the state it leaves, the
  calls of the caller's callback in order (the error, \<open>None\<close> for a falsy one, and the
  value passed with it where the operation passes one), the timers it has set, and the
  exception, if one was thrown out of the operation or out of a reply callback. An
  exception ends the run.
\<close>

type_synonym call = "error option \<times> jsval option"

datatype timer = Timer nat string bool

record outcome =
  final :: world
  calls :: "call list"
  timers :: "timer list"
  thrown :: "exn option"

definition returns :: "world \<Rightarrow> call list \<Rightarrow> outcome" where
  "returns w cs = \<lparr>final = w, calls = cs, timers = [], thrown = None\<rparr>"

definition throws :: "exn \<Rightarrow> world \<Rightarrow> call list \<Rightarrow> outcome" where
  "throws x w cs = \<lparr>final = w, calls = cs, timers = [], thrown = Some x\<rparr>"

text \<open>
  \<^verbatim>\<open>async.parallel\<close> and \<^verbatim>\<open>async.each\<close> call their final callback once: with the
  first error to arrive, or without error when every task has completed.
\<close>

definition first_error :: "error option list \<Rightarrow> error option" where
  "first_error errs = (case filter (\<lambda>e. e \<noteq> None) errs of [] \<Rightarrow> None | e # es \<Rightarrow> e)"

subsection \<open>Resynchronisation: \<^verbatim>\<open>newSub\<close> and the channel handlers\<close>

text \<open>\<^verbatim>\<open>Object.keys(subs).forEach(function(sub) { that._subMatcher.add(sub, id); })\<close>\<close>

fun add_each :: "string list \<Rightarrow> 'v \<Rightarrow> 'v matcher \<Rightarrow> exn option \<times> 'v matcher" where
  "add_each [] v m = (None, m)"
| "add_each (sub # ks) v m =
     (case add sub v m of
        Inl x \<Rightarrow> (Some x, m)
      | Inr m' \<Rightarrow> add_each ks v m')"

text \<open>
  The callback of the \<^verbatim>\<open>get\<close> in \<^verbatim>\<open>newSub(key, cb, retried)\<close>; \<open>cb\<close> tells whether a
  callback was given. After \<^verbatim>\<open>cb(err)\<close> the function goes on to parse the reply.
\<close>

definition newSub_callback :: "string \<Rightarrow> bool \<Rightarrow> bool \<Rightarrow> blob option reply \<Rightarrow> world \<Rightarrow> outcome" where
  "newSub_callback key cb retried rep w =
     (let err = err_of rep; result = result_of rep in
      if err \<noteq> None \<and> \<not> cb then returns w []
      else
        let cs = (if err \<noteq> None then [(err, None)] else []);
            id = index (split CHR '':'' key) 2
        in case JSON_parse result of
             Inl x \<Rightarrow> throws x w cs
           | Inr parsed \<Rightarrow>
               if \<not> truthy_result result \<or> \<not> typeof_object parsed
               then \<lparr>final = w, calls = cs,
                     timers = (if \<not> retried then [Timer 500 key cb] else []), thrown = None\<rparr>
               else (case Object_keys parsed of
                       Inl x \<Rightarrow> throws x w cs
                     | Inr ks \<Rightarrow>
                         (case add_each ks id (subMatcher w) of
                            (Some x, m) \<Rightarrow> throws x (w\<lparr>subMatcher := m\<rparr>) cs
                          | (None, m) \<Rightarrow>
                              returns (w\<lparr>subMatcher := m\<rparr>)
                                (cs @ (if cb then [(None, None)] else [])))))"

definition newSub :: "string \<Rightarrow> bool \<Rightarrow> bool \<Rightarrow> world \<Rightarrow> outcome" where
  "newSub key cb retried w =
     (case rc_get key (rc w) of (rep, r) \<Rightarrow> newSub_callback key cb retried rep (w\<lparr>rc := r\<rparr>))"

text \<open>The timer set by \<^verbatim>\<open>setTimeout(newSub.bind(null, key, cb, true), 500)\<close> fires.\<close>

fun fire :: "timer \<Rightarrow> world \<Rightarrow> outcome" where
  "fire (Timer delay key cb) w = newSub key cb True w"

text \<open>
  The handler of \<^verbatim>\<open>message\<close>. A key that is no string is sent to the store as its
  \<^verbatim>\<open>String\<close>; \<^verbatim>\<open>key.split\<close> then is a TypeError in the callback of the read.
\<close>

definition on_message :: "blob \<Rightarrow> world \<Rightarrow> outcome" where
  "on_message message w =
     (case JSON_parse (Text message) of
        Inl x \<Rightarrow> throws x w []
      | Inr parsed \<Rightarrow>
          if parsed = JNull then throws TypeError w []
          else if get_field ''process'' parsed \<noteq> Some (JStr (uuid w))
          then (case get_field ''key'' parsed of
                  Some (JStr key) \<Rightarrow> newSub key False False w
                | k \<Rightarrow>
                    (case rc_get (String_of k) (rc w) of (rep, r) \<Rightarrow>
                       if err_of rep \<noteq> None then returns (w\<lparr>rc := r\<rparr>) []
                       else throws TypeError (w\<lparr>rc := r\<rparr>) []))
          else returns w [])"

text \<open>
  The handler of \<^verbatim>\<open>subscribe\<close>: the full resync. \<^verbatim>\<open>async.each(keys, newSub, ...)\<close>
  issues the read of every key, then the replies arrive in order. The calls of the
  outcome are those of the constructor's callback, if one was given, up to the point where
  every reply has been handled; the retries are left as timers.
\<close>

fun get_each :: "string list \<Rightarrow> redis \<Rightarrow> (string \<times> blob option reply) list \<times> redis" where
  "get_each [] r = ([], r)"
| "get_each (key # ks) r =
     (case rc_get key r of (rep, r') \<Rightarrow>
        (case get_each ks r' of (reps, r'') \<Rightarrow> ((key, rep) # reps, r'')))"

fun newSub_each :: "(string \<times> blob option reply) list \<Rightarrow> world \<Rightarrow> outcome" where
  "newSub_each [] w = returns w []"
| "newSub_each ((key, rep) # reps) w =
     (let out = newSub_callback key True False rep w in
      if thrown out \<noteq> None then out
      else let rest = newSub_each reps (final out)
           in rest\<lparr>calls := calls out @ calls rest, timers := timers out @ timers rest\<rparr>)"

definition each_final :: "nat \<Rightarrow> call list \<Rightarrow> call list" where
  "each_final n cs =
     (case filter (\<lambda>c. fst c \<noteq> None) cs of
        c # cs' \<Rightarrow> [(fst c, None)]
      | [] \<Rightarrow> if n \<le> length cs then [(None, None)] else [])"

definition on_subscribe :: "bool \<Rightarrow> world \<Rightarrow> outcome" where
  "on_subscribe callback w =
     (case rc_keys (subs @ ''*'') (rc w) of (rep, r1) \<Rightarrow>
        (case rep of
           Failure e \<Rightarrow> throws TypeError (w\<lparr>rc := r1\<rparr>) []
         | Success keys \<Rightarrow>
             (case get_each keys r1 of (reps, r2) \<Rightarrow>
                let out = newSub_each reps (w\<lparr>rc := r2\<rparr>)
                in out\<lparr>calls := (if callback then each_final (length keys) (calls out) else [])\<rparr>)))"

subsection \<open>Retained messages\<close>

text \<open>Reading \<^verbatim>\<open>packet.topic\<close> of \<^verbatim>\<open>null\<close> is a TypeError.\<close>

definition storeRetained :: "jsval \<Rightarrow> world \<Rightarrow> outcome" where
  "storeRetained packet w =
     (if packet = JNull then throws TypeError w []
      else (case rc_hset retained (String_of (get_field ''topic'' packet)) (JSON_stringify packet)
                   (rc w)
            of (rep, r) \<Rightarrow> returns (w\<lparr>rc := r\<rparr>) [(err_of rep, None)]))"

text \<open>
  \<^verbatim>\<open>packet.payload = new Buffer(packet.payload)\<close> on a parsed value: reading a property
  of \<^verbatim>\<open>null\<close> is a TypeError, and so is \<^verbatim>\<open>new Buffer(undefined)\<close>.
\<close>

definition restore_payload :: "jsval \<Rightarrow> exn + jsval" where
  "restore_payload v =
     (if v = JNull then Inl TypeError
      else (case new_Buffer (get_field ''payload'' v) of
              Inl x \<Rightarrow> Inl x
            | Inr b \<Rightarrow> Inr (set_field ''payload'' b v)))"

text \<open>
  The callback of the \<^verbatim>\<open>hget\<close> in \<^verbatim>\<open>match(topic, cb)\<close>, up to its call of \<open>cb\<close>:
  the array \<^verbatim>\<open>matched\<close> afterwards, or the exception.
\<close>

definition match_callback :: "blob option reply \<Rightarrow> jsval list \<Rightarrow> exn + jsval list" where
  "match_callback rep matched =
     (if truthy_result (result_of rep)
      then (case JSON_parse (result_of rep) of
              Inl x \<Rightarrow> Inl x
            | Inr parsed \<Rightarrow>
                (case restore_payload parsed of
                   Inl x \<Rightarrow> Inl x
                 | Inr packet \<Rightarrow> Inr (matched @ [packet])))
      else Inr matched)"

fun hget_each :: "string list \<Rightarrow> redis \<Rightarrow> blob option reply list \<times> redis" where
  "hget_each [] r = ([], r)"
| "hget_each (topic # ts) r =
     (case rc_hget retained topic r of (rep, r') \<Rightarrow>
        (case hget_each ts r' of (reps, r'') \<Rightarrow> (rep # reps, r'')))"

text \<open>
  The replies of \<^verbatim>\<open>async.each(topics, match, function(err) { done(err, matched); })\<close>
  in order. \<open>fin\<close> tells whether \<open>done\<close> has been called, which happens at the first
  error, or at the last reply when there was none; the array passed is written as it is at
  the time of the call.
\<close>

fun each_match :: "blob option reply list \<Rightarrow> bool \<Rightarrow> jsval list \<Rightarrow> exn option \<times> call list" where
  "each_match [] fin matched = (None, [])"
| "each_match (rep # reps) fin matched =
     (case match_callback rep matched of
        Inl x \<Rightarrow> (Some x, [])
      | Inr matched' \<Rightarrow>
          (case each_match reps (fin \<or> err_of rep \<noteq> None) matched' of (x, cs) \<Rightarrow>
             (x, (if fin then []
                  else if err_of rep \<noteq> None then [(err_of rep, Some (JArr matched'))]
                  else if reps = [] then [(None, Some (JArr matched'))]
                  else []) @ cs)))"

definition lookupRetained :: "string \<Rightarrow> world \<Rightarrow> outcome" where
  "lookupRetained pattern w =
     (if CHR ''#'' \<in> set pattern \<or> CHR ''+'' \<in> set pattern
      then (case add pattern True [] of
              Inl x \<Rightarrow> throws x w []
            | Inr matcher \<Rightarrow>
                (case rc_hkeys retained (rc w) of (rep, r1) \<Rightarrow>
                   (case rep of
                      Failure e \<Rightarrow> throws TypeError (w\<lparr>rc := r1\<rparr>) []
                    | Success topics \<Rightarrow>
                        (let topics' = filter (\<lambda>topic. match matcher topic \<noteq> []) (sort topics)
                         in if topics' = [] then returns (w\<lparr>rc := r1\<rparr>) [(None, Some (JArr []))]
                            else (case hget_each topics' r1 of (reps, r2) \<Rightarrow>
                                    (case each_match reps False [] of (x, cs) \<Rightarrow>
                                       \<lparr>final = w\<lparr>rc := r2\<rparr>, calls = cs, timers = [],
                                        thrown = x\<rparr>))))))
      else (case rc_hget retained pattern (rc w) of (rep, r1) \<Rightarrow>
              (case match_callback rep [] of
                 Inl x \<Rightarrow> throws x (w\<lparr>rc := r1\<rparr>) []
               | Inr matched \<Rightarrow> returns (w\<lparr>rc := r1\<rparr>) [(err_of rep, Some (JArr matched))])))"

subsection \<open>Subscriptions\<close>

text \<open>The subscriptions of a session as the object \<^verbatim>\<open>JSON.stringify\<close> is given.\<close>

definition subscriptions_js :: "(string \<times> subscription) list \<Rightarrow> jsval" where
  "subscriptions_js S = JObj (map (\<lambda>(key, s). (key, JObj [(''qos'', JNum (int (qos s)))])) S)"

text \<open>
  \<^verbatim>\<open>if (that._subMatcher.match(e).indexOf(client.id) < 0) that._subMatcher.add(e, client.id)\<close>
  for every persisted pattern \<open>e\<close>.
\<close>

fun add_unmatched :: "string list \<Rightarrow> 'v \<Rightarrow> 'v matcher \<Rightarrow> exn option \<times> 'v matcher" where
  "add_unmatched [] v m = (None, m)"
| "add_unmatched (e # es) v m =
     (if v \<notin> set (match m e)
      then (case add e v m of
              Inl x \<Rightarrow> (Some x, m)
            | Inr m' \<Rightarrow> add_unmatched es v m')
      else add_unmatched es v m)"

definition storeSubscriptions :: "client \<Rightarrow> world \<Rightarrow> outcome" where
  "storeSubscriptions client w =
     (if clean client then returns w [(None, None)]
      else
        let clientSubKey = subs @ client_id client;
            subscriptions = filter (\<lambda>(key, s). 0 < qos s) (subscriptions client)
        in case add_unmatched (map fst subscriptions) (Some (client_id client)) (subMatcher w) of
             (Some x, m) \<Rightarrow> throws x (w\<lparr>subMatcher := m\<rparr>) []
           | (None, m) \<Rightarrow>
               (case rc_set clientSubKey (JSON_stringify (subscriptions_js subscriptions))
                       (ttl_subscriptions w) (rc w) of (rep1, r1) \<Rightarrow>
                  (case rc_publish (channel w)
                          (JSON_stringify
                             (JObj [(''key'', JStr clientSubKey), (''process'', JStr (uuid w))]))
                          r1 of (rep2, r2) \<Rightarrow>
                     returns (w\<lparr>subMatcher := m, rc := r2\<rparr>)
                       [(first_error [err_of rep1, err_of rep2], None)])))"

text \<open>
  \<^verbatim>\<open>_cleanClient(client, done)\<close>; \<open>done\<close> tells whether a callback was given. The first
  component is the value returned at once, the second what the reads and deletes do.
\<close>

definition cleanClient :: "client \<Rightarrow> bool \<Rightarrow> world \<Rightarrow> bool \<times> outcome" where
  "cleanClient client done w =
     (if clean client
      then (True,
            let key = subs @ client_id client
            in case rc_get key (rc w) of (rep, r1) \<Rightarrow>
                 (case JSON_parse (result_of rep) of
                    Inl x \<Rightarrow> throws x (w\<lparr>rc := r1\<rparr>) []
                  | Inr parsed \<Rightarrow>
                      (case Object_keys (if truthy parsed then parsed else JObj []) of
                         Inl x \<Rightarrow> throws x (w\<lparr>rc := r1\<rparr>) []
                       | Inr ks \<Rightarrow>
                           (let m = fold (\<lambda>sub. remove sub (Some (client_id client))) ks (subMatcher w)
                            in case rc_del key r1 of (rep1, r2) \<Rightarrow>
                                 (case rc_del (packets @ client_id client) r2 of (rep2, r3) \<Rightarrow>
                                    returns (w\<lparr>subMatcher := m, rc := r3\<rparr>)
                                      (if done
                                       then [(first_error [err_of rep1, err_of rep2], Some (JObj []))]
                                       else []))))))
      else (False, returns w []))"

definition lookupSubscriptions :: "client \<Rightarrow> world \<Rightarrow> outcome" where
  "lookupSubscriptions client w =
     (case cleanClient client True w of (applied, out) \<Rightarrow>
        if applied then out
        else
          let key = subs @ client_id client
          in case rc_get key (rc w) of (rep, r1) \<Rightarrow>
               (case JSON_parse (result_of rep) of
                  Inl x \<Rightarrow> throws x (w\<lparr>rc := r1\<rparr>) []
                | Inr parsed \<Rightarrow>
                    (let subscriptions = (if truthy parsed then parsed else JObj [])
                     in case Object_keys subscriptions of
                          Inl x \<Rightarrow> throws x (w\<lparr>rc := r1\<rparr>) []
                        | Inr ks \<Rightarrow>
                            (let m = fold (\<lambda>sub. remove sub (Some (client_id client))) ks
                                       (subMatcher w)
                             in if err_of rep \<noteq> None
                                then returns (w\<lparr>subMatcher := m, rc := r1\<rparr>)
                                       [(err_of rep, Some subscriptions)]
                                else (case rc_del key r1 of (rep2, r2) \<Rightarrow>
                                        returns (w\<lparr>subMatcher := m, rc := r2\<rparr>)
                                          [(err_of rep2, Some subscriptions)])))))"

subsection \<open>Offline packets\<close>

definition storePacket :: "string option \<Rightarrow> jsval \<Rightarrow> redis \<Rightarrow> unit reply \<times> redis" where
  "storePacket client packet r =
     rc_lpush (packets @ String_of (map_option JStr client)) (JSON_stringify packet) r"

fun storePacket_each :: "string option list \<Rightarrow> jsval \<Rightarrow> redis \<Rightarrow> error option list \<times> redis" where
  "storePacket_each [] packet r = ([], r)"
| "storePacket_each (client # cs) packet r =
     (case storePacket client packet r of (rep, r') \<Rightarrow>
        (case storePacket_each cs packet r' of (errs, r'') \<Rightarrow> (err_of rep # errs, r'')))"

text \<open>The Matcher splits the topic, so a topic that is no string is a TypeError.\<close>

definition storeOfflinePacket :: "jsval \<Rightarrow> world \<Rightarrow> outcome" where
  "storeOfflinePacket packet w =
     (case get_field ''topic'' packet of
        Some (JStr topic) \<Rightarrow>
          (case storePacket_each (match (subMatcher w) topic) packet (rc w) of (errs, r) \<Rightarrow>
             returns (w\<lparr>rc := r\<rparr>) [(first_error errs, None)])
      | _ \<Rightarrow> throws TypeError w [])"

definition backlog :: "string \<Rightarrow> redis \<Rightarrow> blob list" where
  "backlog key r = (case map_of (keyspace r) key of Some (RList xs) \<Rightarrow> xs | _ \<Rightarrow> [])"

function streamOfflinePackets :: "client \<Rightarrow> world \<Rightarrow> outcome" where
  "streamOfflinePackets client w =
     (case cleanClient client False w of (applied, out) \<Rightarrow>
        if applied then out
        else (case rc_rpop (packets @ client_id client) (rc w) of (rep, r) \<Rightarrow>
                if truthy_result (result_of rep)
                then (case JSON_parse (result_of rep) of
                        Inl x \<Rightarrow> throws x (w\<lparr>rc := r\<rparr>) []
                      | Inr parsed \<Rightarrow>
                          (case restore_payload parsed of
                             Inl x \<Rightarrow> throws x (w\<lparr>rc := r\<rparr>) []
                           | Inr packet \<Rightarrow>
                               (let rest = streamOfflinePackets client (w\<lparr>rc := r\<rparr>)
                                in rest\<lparr>calls := (None, Some packet) # calls rest\<rparr>)))
                else returns (w\<lparr>rc := r\<rparr>) []))"
  by pat_completeness auto
termination
  apply (relation "measure (\<lambda>(client, w). length (backlog (packets @ client_id client) (rc w)))")
   apply simp
  apply (auto simp: rc_rpop_def issue_def backlog_def AList.update_conv' AList.delete_conv'
      split: list.splits if_splits option.splits rval.splits)
  done

declare streamOfflinePackets.simps [simp del]

subsection \<open>Closing\<close>

definition close :: "world \<Rightarrow> outcome" where
  "close w = (case rc_disconnect (rc w) of (rep, r) \<Rightarrow> returns (w\<lparr>rc := r\<rparr>) [(err_of rep, None)])"

subsection \<open>Packets and starting states\<close>

text \<open>
  A packet as the broker passes it: an object whose \<^verbatim>\<open>payload\<close> is a Buffer and whose
  other properties hold no Buffer, so that \<^verbatim>\<open>JSON.stringify\<close> writes them unchanged.
\<close>

definition well_formed_packet :: "jsval \<Rightarrow> bool" where
  "well_formed_packet packet =
     (case packet of
        JObj fs \<Rightarrow>
          distinct (map fst fs)
          \<and> (case map_of fs ''payload'' of Some (JBuf bs) \<Rightarrow> True | _ \<Rightarrow> False)
          \<and> (\<forall>(k, v)\<in>set fs. k \<noteq> ''payload'' \<longrightarrow> toJSON v = v)
      | _ \<Rightarrow> False)"

text \<open>
  The state the constructor sets up before the channel is subscribed: an empty Matcher,
  the identity \<open>u\<close>, the default options, and a store without keys that answers every
  command.
\<close>

definition empty_redis :: redis where
  "empty_redis = \<lparr>keyspace = [], expiry = [], published = [], issued = [], faults = []\<rparr>"

definition fresh :: "string \<Rightarrow> world" where
  "fresh u = \<lparr>rc = empty_redis, subMatcher = [], uuid = u, channel = ''moscaSync'',
              ttl_subscriptions = 60 * 60 * 1000\<rparr>"

subsection \<open>Example sessions and states\<close>

definition session_a :: client where
  "session_a = \<lparr>client_id = ''c1'', clean = False,
     subscriptions = [(''hello/#'', \<lparr>qos = 1\<rparr>), (''news'', \<lparr>qos = 0\<rparr>)]\<rparr>"

text \<open>
  A node whose Matcher still holds an entry of \<open>session_a\<close> that it learnt from a peer's
  notice, for a pattern the session now subscribes to at level 0.
\<close>

definition stale :: world where
  "stale = (fresh ''a'')\<lparr>subMatcher := [(''news'', Some ''c1'')]\<rparr>"

definition session_b :: client where
  "session_b = \<lparr>client_id = ''c2'', clean = False,
     subscriptions = [(''a/+'', \<lparr>qos = 1\<rparr>), (''a/#'', \<lparr>qos = 1\<rparr>)]\<rparr>"

text \<open>A store whose record for \<open>session_a\<close> is no JSON text.\<close>

definition garbled :: world where
  "garbled = (fresh ''a'')\<lparr>rc := empty_redis\<lparr>keyspace := [(subs @ ''c1'', RString (NotJson ''{''))]\<rparr>\<rparr>"

text \<open>A store whose record for \<open>session_a\<close> is the JSON text \<^verbatim>\<open>null\<close>.\<close>

definition nulled :: world where
  "nulled = (fresh ''a'')\<lparr>rc := empty_redis\<lparr>keyspace := [(subs @ ''c1'', RString (Json JNull))]\<rparr>\<rparr>"

text \<open>
  What the read of \<^verbatim>\<open>lookupSubscriptions\<close> finds when there is no record, or a record
  that parses to a falsy value: \<^verbatim>\<open>null\<close>, \<^verbatim>\<open>false\<close>, 0 or the empty string.
\<close>

definition absent_or_falsy :: "rval option \<Rightarrow> bool" where
  "absent_or_falsy x =
     (case x of
        None \<Rightarrow> True
      | Some (RString (Json v)) \<Rightarrow> \<not> truthy (toJSON v)
      | Some _ \<Rightarrow> False)"

text \<open>
  What a read of \<^verbatim>\<open>newSub\<close> finds when there is no record, or a record that parses to
  something that is no object: a number, a string or a boolean.
\<close>

definition no_object_record :: "rval option \<Rightarrow> bool" where
  "no_object_record x =
     (case x of
        None \<Rightarrow> True
      | Some (RString (Json v)) \<Rightarrow> \<not> typeof_object (toJSON v)
      | Some _ \<Rightarrow> False)"

definition session_clean :: client where
  "session_clean = \<lparr>client_id = ''c1'', clean = True,
     subscriptions = [(''hello/#'', \<lparr>qos = 1\<rparr>)]\<rparr>"

text \<open>
  A node that holds the persisted record, the Matcher entry and a backlog of one packet
  for the client \<^verbatim>\<open>c1\<close>.
\<close>

definition left_over :: world where
  "left_over = (fresh ''a'')\<lparr>
     subMatcher := [(''hello/#'', Some ''c1'')],
     rc := empty_redis\<lparr>keyspace :=
       [(subs @ ''c1'', RString (Json (JObj [(''hello/#'', JObj [(''qos'', JNum 1)])]))),
        (packets @ ''c1'', RList [Json (JObj [(''topic'', JStr ''hello/42''),
                                              (''payload'', JArr [JNum 119])])])]\<rparr>\<rparr>"

text \<open>A store that holds the record of a client whose identifier contains a colon.\<close>

definition colon_store :: world where
  "colon_store = (fresh ''a'')\<lparr>rc := empty_redis\<lparr>keyspace :=
       [(subs @ ''dev:42'', RString (Json (JObj [(''hello/#'', JObj [(''qos'', JNum 1)])])))]\<rparr>\<rparr>"

text \<open>
  The list a key holds, newest entry first, when the key is absent or holds a list.
\<close>

definition queue_of :: "string \<Rightarrow> redis \<Rightarrow> blob list option" where
  "queue_of key r =
     (case map_of (keyspace r) key of
        None \<Rightarrow> Some []
      | Some (RList xs) \<Rightarrow> Some xs
      | Some _ \<Rightarrow> None)"

definition session_c :: client where
  "session_c = \<lparr>client_id = ''c3'', clean = False,
     subscriptions = [(''hello/#'', \<lparr>qos = 1\<rparr>)]\<rparr>"

definition packet1 :: jsval where
  "packet1 = JObj [(''topic'', JStr ''hello/42''), (''qos'', JNum 0), (''payload'', JBuf [1]),
                   (''messageId'', JNum 42)]"

definition packet2 :: jsval where
  "packet2 = JObj [(''topic'', JStr ''hello/43''), (''qos'', JNum 0), (''payload'', JBuf [2]),
                   (''messageId'', JNum 43)]"

definition packet3 :: jsval where
  "packet3 = JObj [(''topic'', JStr ''hello''), (''qos'', JNum 1), (''payload'', JBuf [3, 3]),
                   (''messageId'', JNum 44)]"

text \<open>A node on which \<open>session_c\<close> has been stored, before any packet is queued.\<close>

definition offline :: world where
  "offline = (fresh ''a'')\<lparr>subMatcher := [(''hello/#'', Some ''c3'')]\<rparr>"

text \<open>
  The fields a key holds when the key is absent or holds a hash.
\<close>

definition hash_of :: "string \<Rightarrow> redis \<Rightarrow> (string \<times> blob) list option" where
  "hash_of key r =
     (case map_of (keyspace r) key of
        None \<Rightarrow> Some []
      | Some (RHash h) \<Rightarrow> Some h
      | Some _ \<Rightarrow> None)"

text \<open>A node whose retained index holds \<open>packet1\<close> and \<open>packet3\<close> under their topics.\<close>

definition retaining :: world where
  "retaining = (fresh ''a'')\<lparr>rc := empty_redis\<lparr>keyspace :=
     [(retained, RHash [(''hello/42'', JSON_stringify packet1),
                        (''hello'', JSON_stringify packet3)])]\<rparr>\<rparr>"

text \<open>A fresh node whose store fails the next two commands.\<close>

definition failing :: world where
  "failing = (fresh ''a'')\<lparr>rc := empty_redis\<lparr>faults := [True, True]\<rparr>\<rparr>"

section \<open>Properties\<close>

subsection \<open>Strings, JSON and the Matcher\<close>

lemma split_nonempty: "split c s \<noteq> []"
  by (induction s) (auto split: list.splits)

lemma hd_split: "hd (split c s) = takeWhile (\<lambda>x. x \<noteq> c) s"
  by (induction s) (auto split: list.splits simp: split_nonempty)

lemma split_at_separator: "c \<notin> set p \<Longrightarrow> split c (p @ c # s) = p # split c s"
  by (induction p) auto

lemma split_subs: "split CHR '':'' (subs @ s) = ''{persistence'' # ''subs}'' # split CHR '':'' s"
proof -
  have "subs @ s = ''{persistence'' @ CHR '':'' # (''subs}'' @ CHR '':'' # s)"
    by (simp add: subs_def)
  then show ?thesis
    by (simp only: split_at_separator) (simp add: split_at_separator)
qed

lemma third_token: "index (split CHR '':'' (subs @ s)) 2 = Some (takeWhile (\<lambda>x. x \<noteq> CHR '':'') s)"
  using split_nonempty [of "CHR '':''" s] hd_split [of "CHR '':''" s]
  by (cases "split CHR '':'' s") (simp_all add: index_def split_subs)

lemma takeWhile_id_iff: "takeWhile (\<lambda>x. x \<noteq> c) s = s \<longleftrightarrow> c \<notin> set s"
  by (induction s) auto

lemma matches_refl: "matches ps ps"
  by (induction ps) auto

lemma in_match_iff:
  "v \<in> set (match m t) \<longleftrightarrow> (\<exists>p. (p, v) \<in> set m \<and> matches (split CHR ''/'' p) (split CHR ''/'' t))"
  by (auto simp: match_def image_iff)

lemma add_valid:
  "valid_pattern p \<Longrightarrow> add p v m = Inr (if (p, v) \<in> set m then m else m @ [(p, v)])"
  by (simp add: add_def)

lemma set_remove: "set (remove p v m) = set m - {(p, v)}"
  by (auto simp: remove_def)

lemma set_fold_remove: "set (fold (\<lambda>sub. remove sub v) ks m) = set m - (set ks \<times> {v})"
  by (induction ks arbitrary: m) (auto simp: set_remove)

lemma add_each_valid:
  "\<forall>p\<in>set ks. valid_pattern p \<Longrightarrow>
   fst (add_each ks v m) = None \<and> set (snd (add_each ks v m)) = set m \<union> set ks \<times> {v}"
  by (induction ks arbitrary: m) (auto simp: add_valid)

text \<open>
  The loop of \<^verbatim>\<open>storeSubscriptions\<close> over well-formed patterns throws nothing, keeps
  what the Matcher held, adds entries of this subscriber only, and leaves every pattern
  of the list matched for the subscriber (a pattern matches itself as a topic).
\<close>

lemma add_unmatched_valid:
  "\<forall>p\<in>set es. valid_pattern p \<Longrightarrow>
   \<exists>m'. add_unmatched es v m = (None, m') \<and> set m \<subseteq> set m' \<and> set m' \<subseteq> set m \<union> set es \<times> {v}
     \<and> (\<forall>e\<in>set es. v \<in> set (match m' e))"
proof (induction es arbitrary: m)
  case Nil
  then show ?case by simp
next
  case (Cons e es)
  from Cons.prems have ve: "valid_pattern e" and ves: "\<forall>p\<in>set es. valid_pattern p"
    by simp_all
  show ?case
  proof (cases "v \<in> set (match m e)")
    case True
    from Cons.IH [OF ves, of m] obtain m' where
      m': "add_unmatched es v m = (None, m')" "set m \<subseteq> set m'" "set m' \<subseteq> set m \<union> set es \<times> {v}"
        "\<forall>e\<in>set es. v \<in> set (match m' e)" by blast
    from True m'(2) have "v \<in> set (match m' e)" by (auto simp: in_match_iff)
    with m' True show ?thesis by auto
  next
    case False
    from False have "(e, v) \<notin> set m" using matches_refl by (auto simp: in_match_iff)
    then have a: "add e v m = Inr (m @ [(e, v)])" using ve by (simp add: add_valid)
    from Cons.IH [OF ves, of "m @ [(e, v)]"] obtain m' where
      m': "add_unmatched es v (m @ [(e, v)]) = (None, m')" "set (m @ [(e, v)]) \<subseteq> set m'"
        "set m' \<subseteq> set (m @ [(e, v)]) \<union> set es \<times> {v}"
        "\<forall>e\<in>set es. v \<in> set (match m' e)" by blast
    from m'(2) have "(e, v) \<in> set m'" by auto
    then have "v \<in> set (match m' e)" using matches_refl by (auto simp: in_match_iff)
    with m' a False show ?thesis by auto
  qed
qed

lemma toJSON_idem: "toJSON (toJSON v) = toJSON v"
  by (induction v) (auto simp: uint_word_of_int)

lemma toJSON_subscriptions_js: "toJSON (subscriptions_js S) = subscriptions_js S"
  by (induction S) (auto simp: subscriptions_js_def)

lemma subscriptions_js_keys:
  "\<exists>fs. subscriptions_js S = JObj fs \<and> map fst fs = map fst S"
  by (auto simp: subscriptions_js_def comp_def case_prod_beta)

subsection \<open>Storing and looking up subscriptions\<close>

text \<open>
  What \<^verbatim>\<open>storeSubscriptions\<close> leaves for a session that is not clean, when the store
  answers every command and the persisted patterns are well-formed.
\<close>

lemma storeSubscriptions_nonclean:
  assumes "\<not> clean C" and "faults (rc w) = []"
    and "\<forall>(p, s)\<in>set (subscriptions C). 0 < qos s \<longrightarrow> valid_pattern p"
  shows "thrown (storeSubscriptions C w) = None"
    and "calls (storeSubscriptions C w) = [(None, None)]"
    and "faults (rc (final (storeSubscriptions C w))) = []"
    and "keyspace (rc (final (storeSubscriptions C w))) =
           AList.update (subs @ client_id C)
             (RString (Json (subscriptions_js (filter (\<lambda>(key, s). 0 < qos s) (subscriptions C)))))
             (keyspace (rc w))"
    and "set (subMatcher w) \<subseteq> set (subMatcher (final (storeSubscriptions C w)))"
    and "\<forall>(p, s)\<in>set (subscriptions C). 0 < qos s \<longrightarrow>
           Some (client_id C) \<in> set (match (subMatcher (final (storeSubscriptions C w))) p)"
proof -
  let ?S = "filter (\<lambda>(key, s). 0 < qos s) (subscriptions C)"
  from assms(3) have "\<forall>p\<in>set (map fst ?S). valid_pattern p" by auto
  from add_unmatched_valid [OF this, of "Some (client_id C)" "subMatcher w"] obtain m where
    m: "add_unmatched (map fst ?S) (Some (client_id C)) (subMatcher w) = (None, m)"
      "set (subMatcher w) \<subseteq> set m"
      "\<forall>e\<in>set (map fst ?S). Some (client_id C) \<in> set (match m e)" by blast
  from m(3) have 3: "\<forall>(p, s)\<in>set (subscriptions C). 0 < qos s \<longrightarrow> Some (client_id C) \<in> set (match m p)"
    by force
  note defs = storeSubscriptions_def Let_def rc_set_def rc_publish_def issue_def
        JSON_stringify_def toJSON_subscriptions_js first_error_def returns_def
  show "thrown (storeSubscriptions C w) = None" using assms(1,2) m(1) by (simp add: defs)
  show "calls (storeSubscriptions C w) = [(None, None)]" using assms(1,2) m(1) by (simp add: defs)
  show "faults (rc (final (storeSubscriptions C w))) = []" using assms(1,2) m(1) by (simp add: defs)
  show "keyspace (rc (final (storeSubscriptions C w))) =
           AList.update (subs @ client_id C) (RString (Json (subscriptions_js ?S))) (keyspace (rc w))"
    using assms(1,2) m(1) by (simp add: defs)
  have sm: "subMatcher (final (storeSubscriptions C w)) = m"
    using assms(1,2) m(1) by (simp add: defs)
  show "set (subMatcher w) \<subseteq> set (subMatcher (final (storeSubscriptions C w)))"
    using m(2) sm by simp
  show "\<forall>(p, s)\<in>set (subscriptions C). 0 < qos s \<longrightarrow>
           Some (client_id C) \<in> set (match (subMatcher (final (storeSubscriptions C w))) p)"
    using 3 sm by simp
qed

text \<open>\<^verbatim>\<open>lookupSubscriptions\<close> on a record that is a JSON object.\<close>

lemma lookupSubscriptions_record:
  assumes "\<not> clean C" and "faults (rc w) = []"
    and "map_of (keyspace (rc w)) (subs @ client_id C) = Some (RString (Json (JObj fs)))"
  shows "thrown (lookupSubscriptions C w) = None"
    and "calls (lookupSubscriptions C w) = [(None, Some (toJSON (JObj fs)))]"
    and "set (subMatcher (final (lookupSubscriptions C w))) =
           set (subMatcher w) - set (map fst fs) \<times> {Some (client_id C)}"
    and "map_of (keyspace (rc (final (lookupSubscriptions C w)))) (subs @ client_id C) = None"
  using assms
  by (simp_all add: lookupSubscriptions_def cleanClient_def Let_def rc_get_def rc_del_def issue_def
        returns_def set_fold_remove AList.delete_conv' comp_def)

text \<open>
  C1, as amended. For a session that is not clean and whose persisted patterns are
  well-formed, on a store that answers every command: \<^verbatim>\<open>storeSubscriptions\<close> followed by
  \<^verbatim>\<open>lookupSubscriptions\<close> calls back once, without error, with exactly the entries of
  the session whose level is above 0, and afterwards the Matcher holds no entry of the
  session for any of those patterns.
\<close>

theorem store_then_lookup:
  assumes "\<not> clean C" and "faults (rc w) = []"
    and "\<forall>(p, s)\<in>set (subscriptions C). 0 < qos s \<longrightarrow> valid_pattern p"
  shows "calls (lookupSubscriptions C (final (storeSubscriptions C w))) =
           [(None, Some (subscriptions_js (filter (\<lambda>(key, s). 0 < qos s) (subscriptions C))))]
       \<and> thrown (lookupSubscriptions C (final (storeSubscriptions C w))) = None
       \<and> (\<forall>(p, s)\<in>set (subscriptions C). 0 < qos s \<longrightarrow>
            (p, Some (client_id C)) \<notin>
              set (subMatcher (final (lookupSubscriptions C (final (storeSubscriptions C w))))))"
proof -
  let ?S = "filter (\<lambda>(key, s). 0 < qos s) (subscriptions C)"
  let ?w1 = "final (storeSubscriptions C w)"
  obtain fs where fs: "subscriptions_js ?S = JObj fs" "map fst fs = map fst ?S"
    using subscriptions_js_keys by blast
  have f1: "faults (rc ?w1) = []" by (rule storeSubscriptions_nonclean(3) [OF assms])
  have "map_of (keyspace (rc ?w1)) (subs @ client_id C) = Some (RString (Json (JObj fs)))"
    by (simp add: storeSubscriptions_nonclean(4) [OF assms] AList.update_conv' fs(1))
  note L = lookupSubscriptions_record [OF assms(1) f1 this]
  have "toJSON (JObj fs) = subscriptions_js ?S"
    using toJSON_subscriptions_js [of ?S] fs(1) by simp
  with L(2) have c: "calls (lookupSubscriptions C ?w1) = [(None, Some (subscriptions_js ?S))]"
    by simp
  have "\<forall>(p, s)\<in>set (subscriptions C). 0 < qos s \<longrightarrow>
            (p, Some (client_id C)) \<notin> set (subMatcher (final (lookupSubscriptions C ?w1)))"
  proof (clarify)
    fix p s assume "(p, s) \<in> set (subscriptions C)" "0 < qos s"
      and in_m: "(p, Some (client_id C)) \<in> set (subMatcher (final (lookupSubscriptions C ?w1)))"
    then have "p \<in> set (map fst ?S)" by force
    with fs(2) have "p \<in> set (map fst fs)" by simp
    with L(3) in_m show False by auto
  qed
  with c L(1) show ?thesis by blast
qed

theorem store_then_lookup_witness:
  "\<not> clean session_a \<and> faults (rc (fresh ''a'')) = [] \<and> valid_pattern ''hello/#''
   \<and> calls (lookupSubscriptions session_a (final (storeSubscriptions session_a (fresh ''a'')))) =
       [(None, Some (JObj [(''hello/#'', JObj [(''qos'', JNum 1)])]))]"
proof -
  have h1: "\<not> clean session_a" by (simp add: session_a_def)
  have h2: "faults (rc (fresh ''a'')) = []" by (simp add: fresh_def empty_redis_def)
  have h3: "\<forall>(p, s)\<in>set (subscriptions session_a). 0 < qos s \<longrightarrow> valid_pattern p"
    by (simp add: session_a_def valid_pattern_def)
  show ?thesis
    using h1 h2 h3 store_then_lookup [OF h1 h2 h3]
    by (simp add: session_a_def subscriptions_js_def valid_pattern_def)
qed

text \<open>
  C1 as stated fails for a pattern of the session at level 0: the entry the Matcher of
  \<open>stale\<close> holds for it is still there after the lookup.
\<close>

theorem store_then_lookup_counterexample:
  "\<not> clean session_a \<and> (''news'', \<lparr>qos = 0\<rparr>) \<in> set (subscriptions session_a)
   \<and> (''news'', Some (client_id session_a)) \<in>
       set (subMatcher (final (lookupSubscriptions session_a (final (storeSubscriptions session_a stale)))))"
  by (simp add: session_a_def stale_def fresh_def empty_redis_def storeSubscriptions_def
      lookupSubscriptions_def cleanClient_def Let_def rc_get_def rc_set_def rc_publish_def
      rc_del_def issue_def returns_def throws_def match_def add_def valid_pattern_def
      remove_def subscriptions_js_def JSON_stringify_def subs_def first_error_def)

text \<open>
  The Matcher after \<^verbatim>\<open>storeSubscriptions\<close> is what the loop over the persisted patterns
  makes of it, whatever the store answers.
\<close>

lemma storeSubscriptions_matcher:
  "\<not> clean C \<Longrightarrow>
   subMatcher (final (storeSubscriptions C w)) =
     snd (add_unmatched (map fst (filter (\<lambda>(key, s). 0 < qos s) (subscriptions C)))
            (Some (client_id C)) (subMatcher w))
   \<and> thrown (storeSubscriptions C w) =
     fst (add_unmatched (map fst (filter (\<lambda>(key, s). 0 < qos s) (subscriptions C)))
            (Some (client_id C)) (subMatcher w))"
  by (simp add: storeSubscriptions_def Let_def returns_def throws_def
      split: prod.splits option.splits)

text \<open>
  C2. The code does not do what the claim says. \<open>session_b\<close> subscribes to
  \<^verbatim>\<open>a/+\<close> and then to \<^verbatim>\<open>a/#\<close>, both at level 1, on a fresh node. The guard of
  \<^verbatim>\<open>storeSubscriptions\<close> asks \<^verbatim>\<open>match\<close> about the pattern \<^verbatim>\<open>a/#\<close> as if it were
  a topic; \<^verbatim>\<open>a/+\<close>, added just before, matches it, so \<^verbatim>\<open>a/#\<close> is persisted but
  never added: the Matcher holds \<^verbatim>\<open>a/+\<close> alone and matches nobody for the topic
  \<^verbatim>\<open>a/b/c\<close>. A peer that reads the same record through \<^verbatim>\<open>newSub\<close>, which has no
  such guard, adds both patterns.
\<close>

theorem storeSubscriptions_skips_pattern:
  "subMatcher (final (storeSubscriptions session_b (fresh ''a''))) = [(''a/+'', Some ''c2'')]
   \<and> map_of (keyspace (rc (final (storeSubscriptions session_b (fresh ''a''))))) (subs @ ''c2'') =
       Some (RString (Json (JObj [(''a/+'', JObj [(''qos'', JNum 1)]),
                                   (''a/#'', JObj [(''qos'', JNum 1)])])))
   \<and> match (subMatcher (final (storeSubscriptions session_b (fresh ''a'')))) ''a/b/c'' = []
   \<and> subMatcher (final (newSub (subs @ ''c2'') False False
         ((fresh ''b'')\<lparr>rc := rc (final (storeSubscriptions session_b (fresh ''a'')))\<rparr>))) =
       [(''a/+'', Some ''c2''), (''a/#'', Some ''c2'')]"
  by (simp add: session_b_def fresh_def empty_redis_def storeSubscriptions_def
      Let_def rc_set_def rc_publish_def rc_get_def issue_def returns_def throws_def match_def
      add_def valid_pattern_def subscriptions_js_def JSON_stringify_def first_error_def
      newSub_def newSub_callback_def third_token)

text \<open>
  C6, as amended. For a session that is not clean, \<^verbatim>\<open>lookupSubscriptions\<close> on a
  missing record, or on a record that parses to a falsy value (\<^verbatim>\<open>null\<close>,
  \<^verbatim>\<open>false\<close>, 0 or the empty string), calls back once with the empty map and no
  error, when the store answers every command; the Matcher is left as it was.
\<close>

theorem lookupSubscriptions_absent_or_falsy:
  assumes "\<not> clean C" and "faults (rc w) = []"
    and "absent_or_falsy (map_of (keyspace (rc w)) (subs @ client_id C))"
  shows "calls (lookupSubscriptions C w) = [(None, Some (JObj []))]
       \<and> thrown (lookupSubscriptions C w) = None
       \<and> subMatcher (final (lookupSubscriptions C w)) = subMatcher w"
  using assms
  by (auto simp: absent_or_falsy_def lookupSubscriptions_def cleanClient_def Let_def rc_get_def
      rc_del_def issue_def returns_def split: option.splits rval.splits blob.splits)

text \<open>
  The hypotheses of C6 hold for \<open>session_a\<close> on a fresh node, where the record is
  missing, and on the node \<open>nulled\<close>, where it is the text \<^verbatim>\<open>null\<close>.
\<close>

theorem lookupSubscriptions_absent_or_falsy_witness:
  "\<not> clean session_a \<and> faults (rc (fresh ''a'')) = [] \<and> faults (rc nulled) = []
   \<and> map_of (keyspace (rc (fresh ''a''))) (subs @ client_id session_a) = None
   \<and> map_of (keyspace (rc nulled)) (subs @ client_id session_a) = Some (RString (Json JNull))
   \<and> calls (lookupSubscriptions session_a (fresh ''a'')) = [(None, Some (JObj []))]
   \<and> calls (lookupSubscriptions session_a nulled) = [(None, Some (JObj []))]
   \<and> thrown (lookupSubscriptions session_a nulled) = None"
proof -
  have h1: "\<not> clean session_a" by (simp add: session_a_def)
  have h2: "faults (rc (fresh ''a'')) = []" by (simp add: fresh_def empty_redis_def)
  have h2': "faults (rc nulled) = []" by (simp add: nulled_def fresh_def empty_redis_def)
  have k: "map_of (keyspace (rc (fresh ''a''))) (subs @ client_id session_a) = None"
    by (simp add: fresh_def empty_redis_def)
  have k': "map_of (keyspace (rc nulled)) (subs @ client_id session_a) = Some (RString (Json JNull))"
    by (simp add: nulled_def fresh_def empty_redis_def session_a_def)
  have h3: "absent_or_falsy (map_of (keyspace (rc (fresh ''a''))) (subs @ client_id session_a))"
    by (simp add: k absent_or_falsy_def)
  have h3': "absent_or_falsy (map_of (keyspace (rc nulled)) (subs @ client_id session_a))"
    by (simp add: k' absent_or_falsy_def)
  show ?thesis
    using h1 h2 h2' k k' lookupSubscriptions_absent_or_falsy [OF h1 h2 h3]
      lookupSubscriptions_absent_or_falsy [OF h1 h2' h3']
    by simp
qed

text \<open>
  C6 as stated fails for a record that is no JSON text: \<^verbatim>\<open>JSON.parse\<close> throws in the
  callback of the read, and the caller's callback is never called.
\<close>

theorem lookupSubscriptions_malformed_counterexample:
  "\<not> clean session_a
   \<and> map_of (keyspace (rc garbled)) (subs @ client_id session_a) = Some (RString (NotJson ''{''))
   \<and> calls (lookupSubscriptions session_a garbled) = []
   \<and> thrown (lookupSubscriptions session_a garbled) = Some SyntaxError"
  by (simp add: session_a_def garbled_def fresh_def empty_redis_def lookupSubscriptions_def
      cleanClient_def Let_def rc_get_def issue_def returns_def throws_def)

subsection \<open>Clean sessions\<close>

lemma map_fst_toJSON: "map fst (map (map_prod (\<lambda>k. k) toJSON) fs) = map fst fs"
  by (induction fs) auto

text \<open>
  \<^verbatim>\<open>_cleanClient\<close> for a clean session, on a store that answers every command and
  holds no record, or a record that is a JSON object, for the client.
\<close>

lemma cleanClient_clean:
  assumes "clean C" and "faults (rc w) = []"
    and "map_of (keyspace (rc w)) (subs @ client_id C) =
           map_option (\<lambda>fs. RString (Json (JObj fs))) stored"
  shows "fst (cleanClient C done w)"
    and "thrown (snd (cleanClient C done w)) = None"
    and "calls (snd (cleanClient C done w)) = (if done then [(None, Some (JObj []))] else [])"
    and "final (snd (cleanClient C True w)) = final (snd (cleanClient C False w))"
    and "map_of (keyspace (rc (final (snd (cleanClient C done w))))) (subs @ client_id C) = None"
    and "map_of (keyspace (rc (final (snd (cleanClient C done w))))) (packets @ client_id C) = None"
    and "set (subMatcher (final (snd (cleanClient C done w)))) =
           set (subMatcher w) - set (case stored of None \<Rightarrow> [] | Some fs \<Rightarrow> map fst fs) \<times> {Some (client_id C)}"
  using assms
  by (cases stored; simp add: cleanClient_def Let_def rc_get_def rc_del_def issue_def
        returns_def set_fold_remove AList.delete_conv' first_error_def map_fst_toJSON)+

text \<open>
  C4. For a clean session \<^verbatim>\<open>storeSubscriptions\<close> calls back at once and leaves the
  state as it is: nothing is persisted and no command is issued. On a store that answers
  every command and holds no record, or a record that is a JSON object, for the client,
  \<^verbatim>\<open>lookupSubscriptions\<close> and \<^verbatim>\<open>streamOfflinePackets\<close> leave the same state, in
  which the subscription key and the backlog key are gone and the Matcher holds no entry
  of the client for a pattern of the record; \<^verbatim>\<open>lookupSubscriptions\<close> calls back once
  with the empty map, \<^verbatim>\<open>streamOfflinePackets\<close> never calls its callback.
\<close>

theorem clean_session:
  assumes "clean C" and "faults (rc w) = []"
    and "map_of (keyspace (rc w)) (subs @ client_id C) =
           map_option (\<lambda>fs. RString (Json (JObj fs))) stored"
  shows "storeSubscriptions C w = returns w [(None, None)]
       \<and> calls (lookupSubscriptions C w) = [(None, Some (JObj []))]
       \<and> thrown (lookupSubscriptions C w) = None
       \<and> calls (streamOfflinePackets C w) = []
       \<and> thrown (streamOfflinePackets C w) = None
       \<and> final (streamOfflinePackets C w) = final (lookupSubscriptions C w)
       \<and> map_of (keyspace (rc (final (lookupSubscriptions C w)))) (subs @ client_id C) = None
       \<and> map_of (keyspace (rc (final (lookupSubscriptions C w)))) (packets @ client_id C) = None
       \<and> (\<forall>p\<in>set (case stored of None \<Rightarrow> [] | Some fs \<Rightarrow> map fst fs).
             (p, Some (client_id C)) \<notin> set (subMatcher (final (lookupSubscriptions C w))))"
proof -
  note cc = cleanClient_clean [OF assms]
  have l: "lookupSubscriptions C w = snd (cleanClient C True w)"
    using cc(1) [of True] by (cases "cleanClient C True w") (simp add: lookupSubscriptions_def)
  have s: "streamOfflinePackets C w = snd (cleanClient C False w)"
    using cc(1) [of False]
    by (cases "cleanClient C False w") (simp add: streamOfflinePackets.simps [of C w])
  have "storeSubscriptions C w = returns w [(None, None)]"
    using assms(1) by (simp add: storeSubscriptions_def)
  then show ?thesis
    using cc(2) [of True] cc(2) [of False] cc(3) [of True] cc(3) [of False] cc(4)
      cc(5) [of True] cc(6) [of True] cc(7) [of True]
    by (simp add: l s)
qed

text \<open>The hypotheses of C4 hold for \<open>session_clean\<close> on the node \<open>left_over\<close>.\<close>

theorem clean_session_witness:
  "clean session_clean \<and> faults (rc left_over) = []
   \<and> calls (lookupSubscriptions session_clean left_over) = [(None, Some (JObj []))]
   \<and> calls (streamOfflinePackets session_clean left_over) = []
   \<and> keyspace (rc (final (streamOfflinePackets session_clean left_over))) = []
   \<and> subMatcher (final (streamOfflinePackets session_clean left_over)) = []
   \<and> subMatcher (final (lookupSubscriptions session_clean left_over)) = []"
proof -
  have h1: "clean session_clean" by (simp add: session_clean_def)
  have h2: "faults (rc left_over) = []" by (simp add: left_over_def fresh_def empty_redis_def)
  have h3: "map_of (keyspace (rc left_over)) (subs @ client_id session_clean) =
      map_option (\<lambda>fs. RString (Json (JObj fs))) (Some [(''hello/#'', JObj [(''qos'', JNum 1)])])"
    by (simp add: left_over_def fresh_def empty_redis_def session_clean_def)
  have k: "keyspace (rc (final (snd (cleanClient session_clean True left_over)))) = []"
    "subMatcher (final (snd (cleanClient session_clean True left_over))) = []"
    by (simp_all add: cleanClient_def session_clean_def left_over_def fresh_def empty_redis_def
        Let_def rc_get_def rc_del_def issue_def returns_def remove_def subs_def packets_def)
  have l: "lookupSubscriptions session_clean left_over = snd (cleanClient session_clean True left_over)"
    using h1 by (simp add: lookupSubscriptions_def cleanClient_def)
  show ?thesis
    using h1 h2 clean_session [OF h1 h2 h3] k l by simp
qed

subsection \<open>Resynchronisation\<close>

lemma newSub_callback_rc: "rc (final (newSub_callback key cb retried rep w)) = rc w"
  by (simp add: newSub_callback_def Let_def returns_def throws_def
      split: sum.splits prod.splits option.splits)

lemma rc_get_issued: "issued (snd (rc_get key r)) = issued r @ [GET key]"
  by (auto simp: rc_get_def issue_def split: list.splits option.splits rval.splits)

lemma newSub_issued:
  "issued (rc (final (newSub key cb retried w))) = issued (rc w) @ [GET key]"
  using rc_get_issued [of key "rc w"]
  by (cases "rc_get key (rc w)") (simp add: newSub_def newSub_callback_rc)

text \<open>
  C9. A notice whose \<^verbatim>\<open>process\<close> is this node's identity changes nothing: no command
  is issued and the Matcher is as before. A notice with any other \<^verbatim>\<open>process\<close> and a
  string \<^verbatim>\<open>key\<close> runs \<^verbatim>\<open>newSub\<close> on that key, which reads it from the store.
\<close>

theorem on_message_origin:
  assumes "JSON_parse (Text message) = Inr parsed"
  shows "(get_field ''process'' parsed = Some (JStr (uuid w)) \<longrightarrow>
            on_message message w = returns w [])
       \<and> (get_field ''process'' parsed \<noteq> Some (JStr (uuid w))
            \<and> get_field ''key'' parsed = Some (JStr key) \<longrightarrow>
            on_message message w = newSub key False False w
            \<and> issued (rc (final (on_message message w))) = issued (rc w) @ [GET key])"
  using assms by (auto simp: on_message_def newSub_issued)

text \<open>A notice of node \<^verbatim>\<open>a\<close>, received by node \<^verbatim>\<open>a\<close> and by node \<^verbatim>\<open>b\<close>.\<close>

theorem on_message_origin_witness:
  "JSON_parse (Text (JSON_stringify (JObj [(''key'', JStr (subs @ ''c1'')), (''process'', JStr ''a'')])))
     = Inr (JObj [(''key'', JStr (subs @ ''c1'')), (''process'', JStr ''a'')])
   \<and> on_message (JSON_stringify (JObj [(''key'', JStr (subs @ ''c1'')), (''process'', JStr ''a'')]))
        (fresh ''a'') = returns (fresh ''a'') []
   \<and> issued (rc (final (on_message
        (JSON_stringify (JObj [(''key'', JStr (subs @ ''c1'')), (''process'', JStr ''a'')]))
        (fresh ''b'')))) = [GET (subs @ ''c1'')]"
proof -
  let ?m = "JSON_stringify (JObj [(''key'', JStr (subs @ ''c1'')), (''process'', JStr ''a'')])"
  have h: "JSON_parse (Text ?m) = Inr (JObj [(''key'', JStr (subs @ ''c1'')), (''process'', JStr ''a'')])"
    by (simp add: JSON_stringify_def)
  have a: "on_message ?m (fresh ''a'') = returns (fresh ''a'') []"
    using on_message_origin [OF h, of "fresh ''a''" "subs @ ''c1''"] by (simp add: fresh_def)
  have "get_field ''process'' (JObj [(''key'', JStr (subs @ ''c1'')), (''process'', JStr ''a'')])
        \<noteq> Some (JStr (uuid (fresh ''b'')))
      \<and> get_field ''key'' (JObj [(''key'', JStr (subs @ ''c1'')), (''process'', JStr ''a'')])
        = Some (JStr (subs @ ''c1''))"
    by (simp add: fresh_def)
  with on_message_origin [OF h, of "fresh ''b''" "subs @ ''c1''"]
  have "on_message ?m (fresh ''b'') = newSub (subs @ ''c1'') False False (fresh ''b'')
      \<and> issued (rc (final (on_message ?m (fresh ''b'')))) =
        issued (rc (fresh ''b'')) @ [GET (subs @ ''c1'')]"
    by blast
  then have "issued (rc (final (on_message ?m (fresh ''b'')))) =
      issued (rc (fresh ''b'')) @ [GET (subs @ ''c1'')]"
    by (rule conjunct2)
  then have b: "issued (rc (final (on_message ?m (fresh ''b'')))) = [GET (subs @ ''c1'')]"
    by (simp add: fresh_def empty_redis_def)
  show ?thesis using h a b by simp
qed


text \<open>
  C10. \<^verbatim>\<open>newSub\<close>, which both the full resync and the notice handler call, on the key
  of a client whose record is a JSON object of well-formed patterns: every pattern of the
  record is added under the third token of the key, which is the client identifier cut
  at its first colon, and equals the identifier exactly when it contains no colon.
\<close>

theorem newSub_subscriber_id:
  assumes "faults (rc w) = []"
    and "map_of (keyspace (rc w)) (subs @ cid) = Some (RString (Json (JObj fs)))"
    and "\<forall>p\<in>set (map fst fs). valid_pattern p"
  shows "thrown (newSub (subs @ cid) cb retried w) = None
       \<and> set (subMatcher (final (newSub (subs @ cid) cb retried w))) =
           set (subMatcher w) \<union> set (map fst fs) \<times> {Some (takeWhile (\<lambda>x. x \<noteq> CHR '':'') cid)}
       \<and> (takeWhile (\<lambda>x. x \<noteq> CHR '':'') cid = cid \<longleftrightarrow> CHR '':'' \<notin> set cid)"
proof -
  let ?id = "Some (takeWhile (\<lambda>x. x \<noteq> CHR '':'') cid)"
  obtain x m where xm: "add_each (map fst fs) ?id (subMatcher w) = (x, m)"
    by (cases "add_each (map fst fs) ?id (subMatcher w)")
  with add_each_valid [OF assms(3), of ?id "subMatcher w"]
  have x: "x = None" and m: "set m = set (subMatcher w) \<union> set (map fst fs) \<times> {?id}"
    by simp_all
  have "newSub (subs @ cid) cb retried w =
      returns (w\<lparr>rc := (rc w)\<lparr>issued := issued (rc w) @ [GET (subs @ cid)]\<rparr>, subMatcher := m\<rparr>)
        (if cb then [(None, None)] else [])"
    using assms(1,2) xm x
    by (simp add: newSub_def newSub_callback_def rc_get_def issue_def Let_def third_token
        comp_def returns_def)
  with m show ?thesis by (auto simp: returns_def takeWhile_id_iff)
qed

text \<open>The record of the client \<^verbatim>\<open>dev:42\<close> is added under \<^verbatim>\<open>dev\<close>.\<close>

theorem newSub_subscriber_id_witness:
  "faults (rc colon_store) = [] \<and> valid_pattern ''hello/#''
   \<and> subMatcher (final (newSub (subs @ ''dev:42'') False False colon_store)) = [(''hello/#'', Some ''dev'')]
   \<and> set (subMatcher (final (newSub (subs @ ''dev:42'') False False colon_store))) =
       {(''hello/#'', Some (takeWhile (\<lambda>x. x \<noteq> CHR '':'') ''dev:42''))}"
proof -
  have h1: "faults (rc colon_store) = []" by (simp add: colon_store_def fresh_def empty_redis_def)
  have h2: "map_of (keyspace (rc colon_store)) (subs @ ''dev:42'') =
      Some (RString (Json (JObj [(''hello/#'', JObj [(''qos'', JNum 1)])])))"
    by (simp add: colon_store_def fresh_def empty_redis_def)
  have h3: "\<forall>p\<in>set (map fst [(''hello/#'', JObj [(''qos'', JNum 1)])]). valid_pattern p"
    by (simp add: valid_pattern_def)
  have m: "subMatcher (final (newSub (subs @ ''dev:42'') False False colon_store)) =
      [(''hello/#'', Some ''dev'')]"
    using h1 h2
    by (simp add: newSub_def newSub_callback_def rc_get_def issue_def Let_def third_token
        returns_def add_def valid_pattern_def colon_store_def fresh_def)
  show ?thesis
    using h1 h3 m newSub_subscriber_id [OF h1 h2 h3, of False False]
    by (simp add: colon_store_def fresh_def)
qed

text \<open>
  C8, as amended. A read of \<^verbatim>\<open>newSub\<close> that finds no record, or a record that parses
  to a number, a string or a boolean, sets one timer of 500 ms for a second read, calls
  nothing, throws nothing and leaves the Matcher as it is; when that timer fires in a
  state \<open>w'\<close> where the read fails in the same way, no timer is set, nothing is called
  or thrown, and the Matcher is left as it is.
\<close>

theorem newSub_retries_once:
  assumes "faults (rc w) = []" and "no_object_record (map_of (keyspace (rc w)) key)"
    and "faults (rc w') = []" and "no_object_record (map_of (keyspace (rc w')) key)"
  shows "timers (newSub key cb False w) = [Timer 500 key cb]
       \<and> calls (newSub key cb False w) = []
       \<and> thrown (newSub key cb False w) = None
       \<and> subMatcher (final (newSub key cb False w)) = subMatcher w
       \<and> timers (fire (Timer 500 key cb) w') = []
       \<and> calls (fire (Timer 500 key cb) w') = []
       \<and> thrown (fire (Timer 500 key cb) w') = None
       \<and> subMatcher (final (fire (Timer 500 key cb) w')) = subMatcher w'"
  using assms
  by (auto simp: no_object_record_def newSub_def newSub_callback_def rc_get_def issue_def Let_def
      returns_def split: option.splits rval.splits blob.splits)

text \<open>The hypotheses of C8 hold for a key that is missing on a fresh node.\<close>

theorem newSub_retries_once_witness:
  "faults (rc (fresh ''a'')) = [] \<and> no_object_record (map_of (keyspace (rc (fresh ''a''))) (subs @ ''c1''))
   \<and> timers (newSub (subs @ ''c1'') False False (fresh ''a'')) = [Timer 500 (subs @ ''c1'') False]
   \<and> timers (fire (Timer 500 (subs @ ''c1'') False) (fresh ''a'')) = []
   \<and> subMatcher (final (fire (Timer 500 (subs @ ''c1'') False) (fresh ''a''))) = []"
proof -
  have h1: "faults (rc (fresh ''a'')) = []" by (simp add: fresh_def empty_redis_def)
  have h2: "no_object_record (map_of (keyspace (rc (fresh ''a''))) (subs @ ''c1''))"
    by (simp add: fresh_def empty_redis_def no_object_record_def)
  have "subMatcher (fresh ''a'') = []" by (simp add: fresh_def)
  then show ?thesis
    using h1 h2 newSub_retries_once [OF h1 h2 h1 h2, of False] by simp
qed

text \<open>
  C8 as stated fails for a record that is no JSON text: \<^verbatim>\<open>JSON.parse\<close> throws in the
  callback of the read, before the check that sets the timer, so there is no retry and
  the exception leaves the callback.
\<close>

theorem newSub_malformed_counterexample:
  "map_of (keyspace (rc garbled)) (subs @ ''c1'') = Some (RString (NotJson ''{''))
   \<and> timers (newSub (subs @ ''c1'') False False garbled) = []
   \<and> thrown (newSub (subs @ ''c1'') False False garbled) = Some SyntaxError"
  by (simp add: garbled_def fresh_def empty_redis_def newSub_def newSub_callback_def rc_get_def
      issue_def Let_def throws_def)

subsection \<open>Offline packets\<close>

text \<open>
  A well-formed packet comes back from \<^verbatim>\<open>JSON.stringify\<close>, \<^verbatim>\<open>JSON.parse\<close> and the
  restoring of its payload as it was.
\<close>

lemma map_of_map_values:
  "map_of (map (map_prod (\<lambda>k. k) f) fs) k = map_option f (map_of fs k)"
  by (induction fs) auto

lemma update_map_values:
  "distinct (map fst fs) \<Longrightarrow> map_of fs k = Some v \<Longrightarrow>
   \<forall>(k', v')\<in>set fs. k' \<noteq> k \<longrightarrow> f v' = v' \<Longrightarrow>
   AList.update k v (map (map_prod (\<lambda>k. k) f) fs) = fs"
proof (induction fs)
  case Nil
  then show ?case by simp
next
  case (Cons a fs)
  obtain k' v' where a: "a = (k', v')" by (cases a)
  show ?case
  proof (cases "k' = k")
    case True
    with Cons.prems a have "v' = v" by simp
    moreover have "map (map_prod (\<lambda>k. k) f) fs = fs"
    proof (rule map_idI)
      fix x assume x: "x \<in> set fs"
      obtain kx vx where kx: "x = (kx, vx)" by (cases x)
      with x Cons.prems(1) a True have "kx \<noteq> k" by force
      with Cons.prems(3) x kx have "f vx = vx" by auto
      with kx show "map_prod (\<lambda>k. k) f x = x" by simp
    qed
    ultimately show ?thesis using a True by simp
  next
    case False
    with Cons.prems a have "map_of fs k = Some v" "distinct (map fst fs)"
      "\<forall>(k', v')\<in>set fs. k' \<noteq> k \<longrightarrow> f v' = v'" "f v' = v'"
      by auto
    with Cons.IH a False show ?thesis by simp
  qed
qed

lemma well_formed_packetD:
  assumes "well_formed_packet P"
  shows "\<exists>fs bs. P = JObj fs \<and> distinct (map fst fs) \<and> map_of fs ''payload'' = Some (JBuf bs)
           \<and> (\<forall>(k, v)\<in>set fs. k \<noteq> ''payload'' \<longrightarrow> toJSON v = v)"
proof (cases P)
  case (JObj fs)
  with assms have w: "distinct (map fst fs)"
    "case map_of fs ''payload'' of Some (JBuf bs) \<Rightarrow> True | _ \<Rightarrow> False"
    "\<forall>(k, v)\<in>set fs. k \<noteq> ''payload'' \<longrightarrow> toJSON v = v"
    by (simp_all add: well_formed_packet_def)
  from w(2) obtain v where v: "map_of fs ''payload'' = Some v"
    by (cases "map_of fs ''payload''") simp_all
  with w(2) obtain bs where "v = JBuf bs" by (cases v) simp_all
  with v w(1,3) JObj show ?thesis by blast
qed (use assms in \<open>simp_all add: well_formed_packet_def\<close>)

lemma packet_roundtrip:
  assumes "well_formed_packet P"
  shows "truthy_result (Text (JSON_stringify P))"
    and "JSON_parse (Text (JSON_stringify P)) = Inr (toJSON P)"
    and "restore_payload (toJSON P) = Inr P"
proof -
  show "truthy_result (Text (JSON_stringify P))" by (simp add: JSON_stringify_def)
  show "JSON_parse (Text (JSON_stringify P)) = Inr (toJSON P)"
    by (simp add: JSON_stringify_def toJSON_idem)
  from well_formed_packetD [OF assms] obtain fs bs where P: "P = JObj fs"
    and d: "distinct (map fst fs)"
    and pl: "map_of fs ''payload'' = Some (JBuf bs)"
    and rest: "\<forall>(k, v)\<in>set fs. k \<noteq> ''payload'' \<longrightarrow> toJSON v = v"
    by blast
  have "map byte_of (map (\<lambda>b. JNum (uint b)) bs) = bs"
    by (induction bs) (auto simp: byte_of_def)
  then show "restore_payload (toJSON P) = Inr P"
    using update_map_values [OF d pl rest]
    by (simp add: restore_payload_def P map_of_map_values pl)
qed

text \<open>What \<^verbatim>\<open>LPUSH\<close> and \<^verbatim>\<open>RPOP\<close> do to the list of one key.\<close>

lemma rc_lpush_queue:
  assumes "faults r = []" and "queue_of k r = Some xs"
  shows "faults (snd (rc_lpush k' t r)) = []"
    and "queue_of k (snd (rc_lpush k' t r)) = Some (if k' = k then t # xs else xs)"
  using assms
  by (auto simp: rc_lpush_def issue_def queue_of_def AList.update_conv'
      split: option.splits rval.splits)

lemma rc_rpop_queue:
  assumes "faults r = []" and "queue_of k r = Some (xs @ [x])"
  shows "fst (rc_rpop k r) = Success (Some x)"
    and "faults (snd (rc_rpop k r)) = []"
    and "queue_of k (snd (rc_rpop k r)) = Some xs"
  using assms
  by (auto simp: rc_rpop_def issue_def queue_of_def AList.update_conv' AList.delete_conv'
      split: option.splits rval.splits)

lemma rc_rpop_empty:
  assumes "faults r = []" and "queue_of k r = Some []"
  shows "fst (rc_rpop k r) = Success None"
  using assms
  by (auto simp: rc_rpop_def issue_def queue_of_def split: option.splits rval.splits)

text \<open>
  \<^verbatim>\<open>storeOfflinePacket\<close> puts the packet once at the head of the backlog of every
  matched client.
\<close>

lemma storePacket_each_queue:
  assumes "faults r = []" and "queue_of (packets @ cid) r = Some xs"
    and "distinct vs" and "None \<notin> set vs"
  shows "faults (snd (storePacket_each vs P r)) = []
       \<and> queue_of (packets @ cid) (snd (storePacket_each vs P r)) =
           Some (if Some cid \<in> set vs then JSON_stringify P # xs else xs)"
  using assms
proof (induction vs arbitrary: r xs)
  case Nil
  then show ?case by simp
next
  case (Cons v vs)
  from Cons.prems obtain s where v: "v = Some s" by (cases v) auto
  let ?r = "snd (storePacket v P r)"
  have r1: "faults ?r = []"
    and q1: "queue_of (packets @ cid) ?r = Some (if s = cid then JSON_stringify P # xs else xs)"
    using rc_lpush_queue [OF Cons.prems(1,2), of "packets @ s" "JSON_stringify P"]
    by (simp_all add: storePacket_def v)
  from Cons.prems have dv: "distinct vs" "None \<notin> set vs" "v \<notin> set vs" by auto
  from Cons.IH [OF r1 q1 dv(1,2)] dv(3) v
  show ?case
    by (cases "storePacket v P r"; cases "storePacket_each vs P (snd (storePacket v P r))") auto
qed

lemma storeOfflinePacket_queue:
  assumes "faults (rc w) = []" and "queue_of (packets @ cid) (rc w) = Some xs"
    and "None \<notin> snd ` set (subMatcher w)"
    and "get_field ''topic'' P = Some (JStr t)"
    and "Some cid \<in> set (match (subMatcher w) t)"
  shows "faults (rc (final (storeOfflinePacket P w))) = []"
    and "queue_of (packets @ cid) (rc (final (storeOfflinePacket P w))) = Some (JSON_stringify P # xs)"
    and "subMatcher (final (storeOfflinePacket P w)) = subMatcher w"
    and "calls (storeOfflinePacket P w) = [(first_error (fst (storePacket_each (match (subMatcher w) t) P (rc w))), None)]"
proof -
  have d: "distinct (match (subMatcher w) t)" by (simp add: match_def)
  have n: "None \<notin> set (match (subMatcher w) t)" using assms(3) by (auto simp: match_def)
  note q = storePacket_each_queue [OF assms(1,2) d n, of P]
  obtain errs r where e: "storePacket_each (match (subMatcher w) t) P (rc w) = (errs, r)"
    by (cases "storePacket_each (match (subMatcher w) t) P (rc w)")
  with q assms(5) have "faults r = []" "queue_of (packets @ cid) r = Some (JSON_stringify P # xs)"
    by simp_all
  with e assms(4)
  show "faults (rc (final (storeOfflinePacket P w))) = []"
    and "queue_of (packets @ cid) (rc (final (storeOfflinePacket P w))) = Some (JSON_stringify P # xs)"
    and "subMatcher (final (storeOfflinePacket P w)) = subMatcher w"
    and "calls (storeOfflinePacket P w) = [(first_error (fst (storePacket_each (match (subMatcher w) t) P (rc w))), None)]"
    by (simp_all add: storeOfflinePacket_def returns_def)
qed

text \<open>
  \<^verbatim>\<open>streamOfflinePackets\<close> hands over the packets of the backlog from its tail to its
  head and then returns.
\<close>

lemma streamOfflinePackets_drain:
  assumes "\<not> clean C"
  shows "faults (rc w) = [] \<Longrightarrow>
     queue_of (packets @ client_id C) (rc w) = Some (map JSON_stringify Ps) \<Longrightarrow>
     \<forall>P\<in>set Ps. well_formed_packet P \<Longrightarrow>
     calls (streamOfflinePackets C w) = map (\<lambda>P. (None, Some P)) (rev Ps)
     \<and> thrown (streamOfflinePackets C w) = None"
proof (induction Ps arbitrary: w rule: rev_induct)
  case Nil
  then have "fst (rc_rpop (packets @ client_id C) (rc w)) = Success None"
    using rc_rpop_empty by simp
  then show ?case
    using assms
    by (cases "rc_rpop (packets @ client_id C) (rc w)")
      (simp add: streamOfflinePackets.simps [of C w] cleanClient_def returns_def)
next
  case (snoc Q Qs)
  obtain rep r where rr: "rc_rpop (packets @ client_id C) (rc w) = (rep, r)"
    by (cases "rc_rpop (packets @ client_id C) (rc w)")
  from snoc.prems(2) have "queue_of (packets @ client_id C) (rc w) =
      Some (map JSON_stringify Qs @ [JSON_stringify Q])" by simp
  from rc_rpop_queue [OF snoc.prems(1) this] rr
  have rep: "rep = Success (Some (JSON_stringify Q))" and fr: "faults r = []"
    and qr: "queue_of (packets @ client_id C) r = Some (map JSON_stringify Qs)"
    by simp_all
  from snoc.prems(3) have wq: "well_formed_packet Q" and wqs: "\<forall>P\<in>set Qs. well_formed_packet P"
    by simp_all
  have ih: "calls (streamOfflinePackets C (w\<lparr>rc := r\<rparr>)) = map (\<lambda>P. (None, Some P)) (rev Qs)
     \<and> thrown (streamOfflinePackets C (w\<lparr>rc := r\<rparr>)) = None"
    using snoc.IH [of "w\<lparr>rc := r\<rparr>"] fr qr wqs by simp
  show ?case
    using assms rr rep ih packet_roundtrip [OF wq]
    by (simp add: streamOfflinePackets.simps [of C w] cleanClient_def returns_def Let_def)
qed

text \<open>
  C3. For a session that is not clean with an empty backlog, on a store that answers
  every command and a Matcher without undefined subscribers: when three well-formed
  packets, each with a topic that the Matcher matches for the client, are stored by
  \<^verbatim>\<open>storeOfflinePacket\<close> in the order \<open>P1\<close>, \<open>P2\<close>, \<open>P3\<close>, then
  \<^verbatim>\<open>streamOfflinePackets\<close> calls its callback with \<open>P1\<close>, then \<open>P2\<close>, then \<open>P3\<close>,
  and with nothing else.
\<close>

theorem offline_packets_fifo:
  assumes "\<not> clean C" and "faults (rc w) = []"
    and "map_of (keyspace (rc w)) (packets @ client_id C) = None"
    and "None \<notin> snd ` set (subMatcher w)"
    and "well_formed_packet P1" and "get_field ''topic'' P1 = Some (JStr t1)"
    and "Some (client_id C) \<in> set (match (subMatcher w) t1)"
    and "well_formed_packet P2" and "get_field ''topic'' P2 = Some (JStr t2)"
    and "Some (client_id C) \<in> set (match (subMatcher w) t2)"
    and "well_formed_packet P3" and "get_field ''topic'' P3 = Some (JStr t3)"
    and "Some (client_id C) \<in> set (match (subMatcher w) t3)"
  shows "calls (streamOfflinePackets C
           (final (storeOfflinePacket P3 (final (storeOfflinePacket P2
              (final (storeOfflinePacket P1 w))))))) =
           [(None, Some P1), (None, Some P2), (None, Some P3)]
       \<and> thrown (streamOfflinePackets C
           (final (storeOfflinePacket P3 (final (storeOfflinePacket P2
              (final (storeOfflinePacket P1 w))))))) = None"
proof -
  let ?k = "packets @ client_id C"
  let ?w1 = "final (storeOfflinePacket P1 w)"
  let ?w2 = "final (storeOfflinePacket P2 ?w1)"
  let ?w3 = "final (storeOfflinePacket P3 ?w2)"
  have q0: "queue_of ?k (rc w) = Some []" using assms(3) by (simp add: queue_of_def)
  note s1 = storeOfflinePacket_queue [OF assms(2) q0 assms(4) assms(6) assms(7)]
  have m1: "None \<notin> snd ` set (subMatcher ?w1)"
    "Some (client_id C) \<in> set (match (subMatcher ?w1) t2)"
    using s1(3) assms(4,10) by simp_all
  note s2 = storeOfflinePacket_queue [OF s1(1) s1(2) m1(1) assms(9) m1(2)]
  have m2: "None \<notin> snd ` set (subMatcher ?w2)"
    "Some (client_id C) \<in> set (match (subMatcher ?w2) t3)"
    using s2(3) s1(3) assms(4,13) by simp_all
  note s3 = storeOfflinePacket_queue [OF s2(1) s2(2) m2(1) assms(12) m2(2)]
  have q3: "queue_of ?k (rc ?w3) = Some (map JSON_stringify [P3, P2, P1])"
    using s3(2) by simp
  have "\<forall>P\<in>set [P3, P2, P1]. well_formed_packet P" using assms(5,8,11) by simp
  from streamOfflinePackets_drain [OF assms(1) s3(1) q3 this]
  show ?thesis by simp
qed


text \<open>The hypotheses of C3 hold for \<open>session_c\<close> and three packets on the node \<open>offline\<close>.\<close>

theorem offline_packets_fifo_witness:
  "\<not> clean session_c \<and> faults (rc offline) = []
   \<and> map_of (keyspace (rc offline)) (packets @ client_id session_c) = None
   \<and> well_formed_packet packet1 \<and> well_formed_packet packet2 \<and> well_formed_packet packet3
   \<and> Some (client_id session_c) \<in> set (match (subMatcher offline) ''hello/42'')
   \<and> Some (client_id session_c) \<in> set (match (subMatcher offline) ''hello'')
   \<and> calls (streamOfflinePackets session_c
        (final (storeOfflinePacket packet3 (final (storeOfflinePacket packet2
           (final (storeOfflinePacket packet1 offline))))))) =
        [(None, Some packet1), (None, Some packet2), (None, Some packet3)]"
proof -
  have h1: "\<not> clean session_c" by (simp add: session_c_def)
  have h2: "faults (rc offline) = []" by (simp add: offline_def fresh_def empty_redis_def)
  have h3: "map_of (keyspace (rc offline)) (packets @ client_id session_c) = None"
    by (simp add: offline_def fresh_def empty_redis_def)
  have h4: "None \<notin> snd ` set (subMatcher offline)" by (simp add: offline_def)
  have p1: "well_formed_packet packet1" "get_field ''topic'' packet1 = Some (JStr ''hello/42'')"
    by (simp_all add: packet1_def well_formed_packet_def)
  have p2: "well_formed_packet packet2" "get_field ''topic'' packet2 = Some (JStr ''hello/43'')"
    by (simp_all add: packet2_def well_formed_packet_def)
  have p3: "well_formed_packet packet3" "get_field ''topic'' packet3 = Some (JStr ''hello'')"
    by (simp_all add: packet3_def well_formed_packet_def)
  have m1: "Some (client_id session_c) \<in> set (match (subMatcher offline) ''hello/42'')"
    by (simp add: match_def offline_def session_c_def)
  have m2: "Some (client_id session_c) \<in> set (match (subMatcher offline) ''hello/43'')"
    by (simp add: match_def offline_def session_c_def)
  have m3: "Some (client_id session_c) \<in> set (match (subMatcher offline) ''hello'')"
    by (simp add: match_def offline_def session_c_def)
  show ?thesis
    using h1 h2 h3 p1(1) p2(1) p3(1) m1 m3
      offline_packets_fifo [OF h1 h2 h3 h4 p1 m1 p2 m2 p3 m3]
    by simp
qed

subsection \<open>Retained messages\<close>

lemma match_callback_packet:
  "well_formed_packet P \<Longrightarrow>
   match_callback (Success (Some (JSON_stringify P))) matched = Inr (matched @ [P])"
  using packet_roundtrip [of P] by (simp add: match_callback_def)

lemma match_callback_absent: "match_callback (Success None) matched = Inr matched"
  by (simp add: match_callback_def)

text \<open>\<^verbatim>\<open>HGET\<close> and \<^verbatim>\<open>HKEYS\<close> on a store that answers, for a key that is absent or a hash.\<close>

lemma rc_hget_hash:
  assumes "faults r = []" and "hash_of key r = Some h"
  shows "rc_hget key field r = (Success (map_of h field), r\<lparr>issued := issued r @ [HGET key field]\<rparr>)"
  using assms
  by (auto simp: rc_hget_def issue_def hash_of_def split: option.splits rval.splits)

lemma hget_each_hash:
  assumes "faults r = []" and "hash_of retained r = Some h"
  shows "fst (hget_each ts r) = map (\<lambda>t. Success (map_of h t)) ts
       \<and> issued (snd (hget_each ts r)) = issued r @ map (HGET retained) ts"
  using assms
proof (induction ts arbitrary: r)
  case Nil
  then show ?case by simp
next
  case (Cons t ts)
  let ?r = "r\<lparr>issued := issued r @ [HGET retained t]\<rparr>"
  have "faults ?r = []" "hash_of retained ?r = Some h"
    using Cons.prems by (simp_all add: hash_of_def)
  from Cons.IH [OF this] rc_hget_hash [OF Cons.prems, of t]
  show ?case by (cases "hget_each ts ?r") simp
qed

lemma each_match_packets:
  assumes "\<forall>t\<in>set ts. \<exists>P. map_of tps t = Some P \<and> well_formed_packet P"
  shows "each_match (map (\<lambda>t. Success (map_option JSON_stringify (map_of tps t))) ts) False matched =
     (None, if ts = [] then [] else [(None, Some (JArr (matched @ map (\<lambda>t. the (map_of tps t)) ts)))])"
  using assms
proof (induction ts arbitrary: matched)
  case Nil
  then show ?case by simp
next
  case (Cons t ts)
  from Cons.prems obtain P where P: "map_of tps t = Some P" "well_formed_packet P" by auto
  from Cons.prems have "\<forall>t\<in>set ts. \<exists>P. map_of tps t = Some P \<and> well_formed_packet P" by simp
  from Cons.IH [OF this, of "matched @ [P]"] P
  show ?case by (simp add: match_callback_packet)
qed

lemma map_of_stringified:
  "map_of (map (\<lambda>(t, P). (t, JSON_stringify P)) tps) t = map_option JSON_stringify (map_of tps t)"
  by (induction tps) auto

lemma match_throwaway:
  "(match [(pattern, True)] topic \<noteq> []) = matches (split CHR ''/'' pattern) (split CHR ''/'' topic)"
  by (simp add: match_def)

lemma lookupRetained_exact_issued:
  assumes "CHR ''#'' \<notin> set pattern" and "CHR ''+'' \<notin> set pattern"
  shows "issued (rc (final (lookupRetained pattern w))) = issued (rc w) @ [HGET retained pattern]"
    and "length (calls (lookupRetained pattern w)) \<le> 1"
    and "\<forall>c\<in>set (calls (lookupRetained pattern w)).
           \<exists>matched. snd c = Some (JArr matched) \<and> length matched \<le> 1"
  using assms
  by (auto simp: lookupRetained_def rc_hget_def issue_def match_callback_def returns_def throws_def
      split: list.splits option.splits rval.splits sum.splits if_splits)

lemma lookupRetained_exact:
  assumes "CHR ''#'' \<notin> set pattern" and "CHR ''+'' \<notin> set pattern"
    and "faults (rc w) = []"
    and "hash_of retained (rc w) = Some (map (\<lambda>(t, P). (t, JSON_stringify P)) tps)"
    and "\<forall>(t, P)\<in>set tps. well_formed_packet P"
  shows "calls (lookupRetained pattern w) =
           [(None, Some (JArr (case map_of tps pattern of None \<Rightarrow> [] | Some P \<Rightarrow> [P])))]
       \<and> thrown (lookupRetained pattern w) = None"
proof (cases "map_of tps pattern")
  case None
  with rc_hget_hash [OF assms(3,4), of pattern] assms(1,2)
  show ?thesis
    by (simp add: lookupRetained_def map_of_stringified match_callback_absent returns_def)
next
  case (Some P)
  then have "(pattern, P) \<in> set tps" by (rule map_of_SomeD)
  with assms(5) have "well_formed_packet P" by auto
  with rc_hget_hash [OF assms(3,4), of pattern] assms(1,2) Some
  show ?thesis
    by (simp add: lookupRetained_def map_of_stringified match_callback_packet returns_def)
qed

lemma rc_hkeys_hash:
  assumes "faults r = []" and "hash_of key r = Some h"
  shows "rc_hkeys key r = (Success (map fst h), r\<lparr>issued := issued r @ [HKEYS key]\<rparr>)"
  using assms
  by (auto simp: rc_hkeys_def issue_def hash_of_def split: option.splits rval.splits)

lemma lookupRetained_wildcard:
  assumes "CHR ''#'' \<in> set pattern \<or> CHR ''+'' \<in> set pattern"
    and "valid_pattern pattern"
    and "faults (rc w) = []"
    and "hash_of retained (rc w) = Some (map (\<lambda>(t, P). (t, JSON_stringify P)) tps)"
    and "\<forall>(t, P)\<in>set tps. well_formed_packet P"
    and "topics = filter (\<lambda>topic. match [(pattern, True)] topic \<noteq> []) (sort (map fst tps))"
  shows "issued (rc (final (lookupRetained pattern w))) =
           issued (rc w) @ HKEYS retained # map (HGET retained) topics
       \<and> calls (lookupRetained pattern w) =
           [(None, Some (JArr (map (\<lambda>t. the (map_of tps t)) topics)))]
       \<and> thrown (lookupRetained pattern w) = None"
proof -
  let ?h = "map (\<lambda>(t, P). (t, JSON_stringify P)) tps"
  let ?r1 = "(rc w)\<lparr>issued := issued (rc w) @ [HKEYS retained]\<rparr>"
  have a: "add pattern True [] = Inr [(pattern, True)]" using assms(2) by (simp add: add_def)
  have k: "rc_hkeys retained (rc w) = (Success (map fst tps), ?r1)"
    using rc_hkeys_hash [OF assms(3,4)] by (simp add: comp_def case_prod_beta)
  have t: "filter (\<lambda>topic. match [(pattern, True)] topic \<noteq> []) (sort (map fst tps)) = topics"
    by (simp add: assms(6))
  have r1: "faults ?r1 = []" "hash_of retained ?r1 = Some ?h"
    using assms(3,4) by (simp_all add: hash_of_def)
  note hg = hget_each_hash [OF r1, of topics]
  have "\<forall>t\<in>set topics. \<exists>P. map_of tps t = Some P \<and> well_formed_packet P"
  proof
    fix t assume "t \<in> set topics"
    then have "t \<in> fst ` set tps" by (auto simp: assms(6))
    then obtain P where P: "map_of tps t = Some P"
      by (cases "map_of tps t") (auto simp: map_of_eq_None_iff)
    then have "(t, P) \<in> set tps" by (rule map_of_SomeD)
    with assms(5) P show "\<exists>P. map_of tps t = Some P \<and> well_formed_packet P" by auto
  qed
  note em = each_match_packets [OF this, of "[]"]
  obtain reps r2 where h2: "hget_each topics ?r1 = (reps, r2)" by (cases "hget_each topics ?r1")
  with hg have reps: "reps = map (\<lambda>t. Success (map_option JSON_stringify (map_of tps t))) topics"
    and i2: "issued r2 = issued (rc w) @ HKEYS retained # map (HGET retained) topics"
    by (simp_all add: map_of_stringified)
  show ?thesis
    using assms(1) a k t h2 i2 em reps
    by (cases "topics = []") (simp_all add: lookupRetained_def Let_def returns_def)
qed

lemma lookupRetained_subMatcher:
  "subMatcher (final (lookupRetained pattern w)) = subMatcher w"
  by (auto simp: lookupRetained_def returns_def throws_def Let_def
      split: sum.splits prod.splits reply.splits)

text \<open>
  C5. \<^verbatim>\<open>lookupRetained\<close> never touches the Matcher of the node. Without
  \<^verbatim>\<open>#\<close> and \<^verbatim>\<open>+\<close> in its input it issues the one command \<^verbatim>\<open>HGET\<close> for that
  field, never \<^verbatim>\<open>HKEYS\<close>, and the array it calls back with has at most one element.
  On a store that answers every command and whose retained index holds well-formed
  packets \<open>tps\<close> (or is absent): without a wildcard the result is the packet stored
  under the input, or the empty array; with a wildcard in a well-formed pattern it issues
  \<^verbatim>\<open>HKEYS\<close>, sorts the topics, keeps those for which a Matcher holding that one
  pattern returns something, issues \<^verbatim>\<open>HGET\<close> for each of them in that order, and calls
  back once with their packets.
\<close>

theorem lookupRetained_dispatch:
  "subMatcher (final (lookupRetained pattern w)) = subMatcher w
   \<and> (CHR ''#'' \<notin> set pattern \<and> CHR ''+'' \<notin> set pattern \<longrightarrow>
      issued (rc (final (lookupRetained pattern w))) = issued (rc w) @ [HGET retained pattern]
      \<and> length (calls (lookupRetained pattern w)) \<le> 1
      \<and> (\<forall>c\<in>set (calls (lookupRetained pattern w)).
            \<exists>matched. snd c = Some (JArr matched) \<and> length matched \<le> 1))
   \<and> (faults (rc w) = []
       \<and> hash_of retained (rc w) = Some (map (\<lambda>(t, P). (t, JSON_stringify P)) tps)
       \<and> (\<forall>(t, P)\<in>set tps. well_formed_packet P) \<longrightarrow>
      (CHR ''#'' \<notin> set pattern \<and> CHR ''+'' \<notin> set pattern \<longrightarrow>
         calls (lookupRetained pattern w) =
           [(None, Some (JArr (case map_of tps pattern of None \<Rightarrow> [] | Some P \<Rightarrow> [P])))]
         \<and> thrown (lookupRetained pattern w) = None)
      \<and> ((CHR ''#'' \<in> set pattern \<or> CHR ''+'' \<in> set pattern) \<and> valid_pattern pattern \<longrightarrow>
         issued (rc (final (lookupRetained pattern w))) =
           issued (rc w) @ HKEYS retained #
             map (HGET retained)
               (filter (\<lambda>topic. match [(pattern, True)] topic \<noteq> []) (sort (map fst tps)))
         \<and> calls (lookupRetained pattern w) =
           [(None, Some (JArr (map (\<lambda>t. the (map_of tps t))
               (filter (\<lambda>topic. match [(pattern, True)] topic \<noteq> []) (sort (map fst tps))))))]
         \<and> thrown (lookupRetained pattern w) = None))"
  using lookupRetained_subMatcher [of pattern w]
    lookupRetained_exact_issued [of pattern w] lookupRetained_exact [of pattern w tps]
    lookupRetained_wildcard [of pattern w tps, OF _ _ _ _ _ refl]
  by blast

text \<open>
  The hypotheses of C5 hold on the node \<open>retaining\<close>, for a topic and for a pattern.
\<close>

theorem lookupRetained_dispatch_witness:
  "faults (rc retaining) = [] \<and> valid_pattern ''hello/#''
   \<and> well_formed_packet packet1 \<and> well_formed_packet packet3
   \<and> calls (lookupRetained ''hello/42'' retaining) = [(None, Some (JArr [packet1]))]
   \<and> issued (rc (final (lookupRetained ''hello/42'' retaining))) = [HGET retained ''hello/42'']
   \<and> calls (lookupRetained ''hello/#'' retaining) = [(None, Some (JArr [packet3, packet1]))]
   \<and> issued (rc (final (lookupRetained ''hello/#'' retaining))) =
       [HKEYS retained, HGET retained ''hello'', HGET retained ''hello/42'']"
proof -
  let ?tps = "[(''hello/42'', packet1), (''hello'', packet3)]"
  have h1: "faults (rc retaining) = []" by (simp add: retaining_def fresh_def empty_redis_def)
  have h2: "hash_of retained (rc retaining) = Some (map (\<lambda>(t, P). (t, JSON_stringify P)) ?tps)"
    by (simp add: retaining_def fresh_def empty_redis_def hash_of_def)
  have p1: "well_formed_packet packet1" by (simp add: packet1_def well_formed_packet_def)
  have p3: "well_formed_packet packet3" by (simp add: packet3_def well_formed_packet_def)
  have h3: "\<forall>(t, P)\<in>set ?tps. well_formed_packet P" using p1 p3 by simp
  have v: "valid_pattern ''hello/#''" by (simp add: valid_pattern_def)
  have i0: "issued (rc retaining) = []" by (simp add: retaining_def fresh_def empty_redis_def)
  have a: "calls (lookupRetained ''hello/42'' retaining) = [(None, Some (JArr [packet1]))]
      \<and> issued (rc (final (lookupRetained ''hello/42'' retaining))) = [HGET retained ''hello/42'']"
    using lookupRetained_dispatch [of "''hello/42''" retaining ?tps] h1 h2 h3 i0 by simp
  have b: "calls (lookupRetained ''hello/#'' retaining) = [(None, Some (JArr [packet3, packet1]))]
      \<and> issued (rc (final (lookupRetained ''hello/#'' retaining))) =
       [HKEYS retained, HGET retained ''hello'', HGET retained ''hello/42'']"
    using lookupRetained_dispatch [of "''hello/#''" retaining ?tps] h1 h2 h3 v i0
    by (simp add: match_def)
  show ?thesis using h1 v p1 p3 a b by simp
qed

subsection \<open>Completion signals\<close>

text \<open>
  \<^verbatim>\<open>async.each\<close> over the replies calls \<open>done\<close> once when nothing is thrown.
\<close>

lemma each_match_calls:
  "each_match reps fin matched = (None, cs) \<Longrightarrow> length cs = (if fin \<or> reps = [] then 0 else 1)"
proof (induction reps arbitrary: fin matched cs)
  case Nil
  then show ?case by simp
next
  case (Cons rep reps)
  from Cons.prems obtain matched' where m: "match_callback rep matched = Inr matched'"
    by (cases "match_callback rep matched") auto
  obtain x cs' where e: "each_match reps (fin \<or> err_of rep \<noteq> None) matched' = (x, cs')"
    by (cases "each_match reps (fin \<or> err_of rep \<noteq> None) matched'")
  with Cons.prems m have x: "x = None" by simp
  from Cons.IH [OF e [unfolded x]] Cons.prems m e x
  show ?case by (cases "reps = []"; cases fin; cases "err_of rep") auto
qed

lemma storeSubscriptions_signal:
  "thrown (storeSubscriptions C w) = None \<Longrightarrow> length (calls (storeSubscriptions C w)) = 1"
  by (auto simp: storeSubscriptions_def Let_def returns_def throws_def
      split: prod.splits option.splits if_splits)

lemma cleanClient_signal:
  "thrown (snd (cleanClient C done w)) = None \<Longrightarrow> clean C \<Longrightarrow>
   length (calls (snd (cleanClient C done w))) = (if done then 1 else 0)"
  by (auto simp: cleanClient_def Let_def returns_def throws_def
      split: prod.splits sum.splits if_splits)

lemma lookupSubscriptions_signal:
  "thrown (lookupSubscriptions C w) = None \<Longrightarrow> length (calls (lookupSubscriptions C w)) = 1"
proof (cases "clean C")
  case True
  then have "lookupSubscriptions C w = snd (cleanClient C True w)"
    by (simp add: lookupSubscriptions_def cleanClient_def)
  then show "thrown (lookupSubscriptions C w) = None \<Longrightarrow> ?thesis"
    using cleanClient_signal [of C True w] True by simp
next
  case False
  then show "thrown (lookupSubscriptions C w) = None \<Longrightarrow> ?thesis"
    by (auto simp: lookupSubscriptions_def cleanClient_def Let_def returns_def throws_def
        split: prod.splits sum.splits if_splits)
qed

lemma length_hget_each: "length (fst (hget_each ts r)) = length ts"
proof (induction ts arbitrary: r)
  case Nil
  then show ?case by simp
next
  case (Cons t ts)
  obtain rep r' where g: "rc_hget retained t r = (rep, r')" by (cases "rc_hget retained t r")
  obtain reps r'' where h: "hget_each ts r' = (reps, r'')" by (cases "hget_each ts r'")
  from Cons.IH [of r'] g h show ?case by simp
qed

lemma lookupRetained_signal:
  assumes "thrown (lookupRetained pattern w) = None"
  shows "length (calls (lookupRetained pattern w)) = 1"
proof (cases "CHR ''#'' \<in> set pattern \<or> CHR ''+'' \<in> set pattern")
  case False
  with assms show ?thesis
    by (auto simp: lookupRetained_def returns_def throws_def split: prod.splits sum.splits)
next
  case True
  show ?thesis
  proof (cases "add pattern True []")
    case (Inl x)
    with True assms show ?thesis by (simp add: lookupRetained_def throws_def)
  next
    case (Inr matcher)
    obtain rep r1 where k: "rc_hkeys retained (rc w) = (rep, r1)"
      by (cases "rc_hkeys retained (rc w)")
    show ?thesis
    proof (cases rep)
      case (Failure e)
      with True Inr k assms show ?thesis by (simp add: lookupRetained_def throws_def)
    next
      case (Success topics)
      let ?ts = "filter (\<lambda>topic. match matcher topic \<noteq> []) (sort topics)"
      show ?thesis
      proof (cases "?ts = []")
        case True
        with \<open>CHR ''#'' \<in> set pattern \<or> CHR ''+'' \<in> set pattern\<close> Inr k Success show ?thesis
          by (simp add: lookupRetained_def returns_def)
      next
        case False
        obtain reps r2 where h: "hget_each ?ts r1 = (reps, r2)" by (cases "hget_each ?ts r1")
        obtain x cs where e: "each_match reps False [] = (x, cs)"
          by (cases "each_match reps False []")
        from h length_hget_each [of ?ts r1] False have ne: "reps \<noteq> []" by auto
        from True Inr k Success False h e
        have o: "lookupRetained pattern w =
            \<lparr>final = w\<lparr>rc := r2\<rparr>, calls = cs, timers = [], thrown = x\<rparr>"
          by (simp add: lookupRetained_def Let_def)
        with assms have "x = None" by simp
        with e each_match_calls [of reps False "[]" cs] ne have "length cs = 1" by simp
        with o show ?thesis by simp
      qed
    qed
  qed
qed

lemma storeOfflinePacket_signal:
  "thrown (storeOfflinePacket P w) = None \<Longrightarrow> length (calls (storeOfflinePacket P w)) = 1"
  by (auto simp: storeOfflinePacket_def returns_def throws_def
      split: prod.splits option.splits jsval.splits)

lemma cleanClient_no_done: "calls (snd (cleanClient C False w)) = []"
  by (auto simp: cleanClient_def Let_def returns_def throws_def
      split: prod.splits sum.splits if_splits)

lemma streamOfflinePackets_calls:
  "\<forall>c\<in>set (calls (streamOfflinePackets C w)). fst c = None \<and> snd c \<noteq> None"
proof (induction C w rule: streamOfflinePackets.induct)
  case (1 client w)
  show ?case
  proof (cases "clean client")
    case True
    then have "streamOfflinePackets client w = snd (cleanClient client False w)"
      by (simp add: streamOfflinePackets.simps [of client w] cleanClient_def)
    then show ?thesis by (simp add: cleanClient_no_done)
  next
    case False
    then have cc: "cleanClient client False w = (False, returns w [])"
      by (simp add: cleanClient_def)
    obtain rep r where rr: "rc_rpop (packets @ client_id client) (rc w) = (rep, r)"
      by (cases "rc_rpop (packets @ client_id client) (rc w)")
    show ?thesis
    proof (cases "truthy_result (result_of rep)")
      case nt: False
      with cc rr show ?thesis
        by (simp add: streamOfflinePackets.simps [of client w] returns_def)
    next
      case t: True
      show ?thesis
      proof (cases "JSON_parse (result_of rep)")
        case (Inl x)
        with cc rr t show ?thesis
          by (simp add: streamOfflinePackets.simps [of client w] throws_def)
      next
        case (Inr parsed)
        show ?thesis
        proof (cases "restore_payload parsed")
          case (Inl x)
          with cc rr t Inr show ?thesis
            by (simp add: streamOfflinePackets.simps [of client w] throws_def)
        next
          case (Inr packet)
          from "1.IH" [OF cc [symmetric] _ rr [symmetric] t \<open>JSON_parse (result_of rep) = Inr parsed\<close> Inr]
          have "\<forall>c\<in>set (calls (streamOfflinePackets client (w\<lparr>rc := r\<rparr>))). fst c = None \<and> snd c \<noteq> None"
            by simp
          with cc rr t \<open>JSON_parse (result_of rep) = Inr parsed\<close> Inr show ?thesis
            by (simp add: streamOfflinePackets.simps [of client w] Let_def)
        qed
      qed
    qed
  qed
qed

lemma streamOfflinePackets_empty:
  assumes "\<not> clean C" and "map_of (keyspace (rc w)) (packets @ client_id C) = None"
  shows "calls (streamOfflinePackets C w) = [] \<and> thrown (streamOfflinePackets C w) = None"
  using assms
  by (subst streamOfflinePackets.simps, subst (2) streamOfflinePackets.simps)
    (auto simp: cleanClient_def rc_rpop_def issue_def returns_def split: list.splits)

lemma streamOfflinePackets_clean:
  assumes "clean C"
  shows "calls (streamOfflinePackets C w) = []"
proof -
  from assms have "streamOfflinePackets C w = snd (cleanClient C False w)"
    by (simp add: streamOfflinePackets.simps [of C w] cleanClient_def)
  then show ?thesis by (simp add: cleanClient_no_done)
qed

text \<open>
  C7, as amended. A call of \<^verbatim>\<open>storeSubscriptions\<close>, \<^verbatim>\<open>lookupSubscriptions\<close>,
  \<^verbatim>\<open>storeRetained\<close>, \<^verbatim>\<open>lookupRetained\<close> or \<^verbatim>\<open>storeOfflinePacket\<close> that ends
  without an exception calls the caller's callback exactly once, with success or with an
  error, whatever the store answers; \<^verbatim>\<open>close\<close> always does. \<^verbatim>\<open>streamOfflinePackets\<close>
  gives no completion signal: every call of its callback hands over a packet, a clean
  session gets no call, and a session whose backlog is absent gets no call and no
  exception.
\<close>

theorem completion_signals:
  "(thrown (storeSubscriptions C w) = None \<longrightarrow> length (calls (storeSubscriptions C w)) = 1)
   \<and> (thrown (lookupSubscriptions C w) = None \<longrightarrow> length (calls (lookupSubscriptions C w)) = 1)
   \<and> (thrown (storeRetained P w) = None \<longrightarrow> length (calls (storeRetained P w)) = 1)
   \<and> (thrown (lookupRetained pattern w) = None \<longrightarrow> length (calls (lookupRetained pattern w)) = 1)
   \<and> (thrown (storeOfflinePacket P w) = None \<longrightarrow> length (calls (storeOfflinePacket P w)) = 1)
   \<and> length (calls (close w)) = 1 \<and> thrown (close w) = None
   \<and> (\<forall>c\<in>set (calls (streamOfflinePackets C w)). fst c = None \<and> snd c \<noteq> None)
   \<and> (clean C \<longrightarrow> calls (streamOfflinePackets C w) = [])
   \<and> (\<not> clean C \<and> map_of (keyspace (rc w)) (packets @ client_id C) = None \<longrightarrow>
        calls (streamOfflinePackets C w) = [] \<and> thrown (streamOfflinePackets C w) = None)"
proof -
  have "thrown (storeRetained P w) = None \<longrightarrow> length (calls (storeRetained P w)) = 1"
    by (simp add: storeRetained_def returns_def throws_def split: prod.splits)
  moreover have "length (calls (close w)) = 1 \<and> thrown (close w) = None"
    by (simp add: close_def returns_def split: prod.splits)
  ultimately show ?thesis
    using storeSubscriptions_signal [of C w] lookupSubscriptions_signal [of C w]
      lookupRetained_signal [of pattern w] storeOfflinePacket_signal [of P w]
      streamOfflinePackets_calls [of C w] streamOfflinePackets_empty [of C w]
      streamOfflinePackets_clean [of C w]
    by blast
qed

text \<open>
  The hypotheses of C7 hold for \<open>session_a\<close> on a fresh node and on one whose store
  fails, where the one signal carries the error.
\<close>

theorem completion_signals_witness:
  "thrown (storeSubscriptions session_a failing) = None
   \<and> calls (storeSubscriptions session_a failing) = [(Some StoreUnavailable, None)]
   \<and> length (calls (storeSubscriptions session_a failing)) = 1
   \<and> thrown (lookupSubscriptions session_a (fresh ''a'')) = None
   \<and> length (calls (lookupSubscriptions session_a (fresh ''a''))) = 1
   \<and> thrown (lookupRetained ''hello/#'' (fresh ''a'')) = None
   \<and> length (calls (lookupRetained ''hello/#'' (fresh ''a''))) = 1
   \<and> thrown (storeOfflinePacket packet1 (fresh ''a'')) = None
   \<and> length (calls (storeOfflinePacket packet1 (fresh ''a''))) = 1"
proof -
  have a: "thrown (storeSubscriptions session_a failing) = None"
    "calls (storeSubscriptions session_a failing) = [(Some StoreUnavailable, None)]"
    by (simp_all add: session_a_def failing_def fresh_def empty_redis_def storeSubscriptions_def
        Let_def rc_set_def rc_publish_def issue_def returns_def match_def add_def
        valid_pattern_def first_error_def)
  have b: "thrown (lookupSubscriptions session_a (fresh ''a'')) = None"
    by (simp add: session_a_def fresh_def empty_redis_def lookupSubscriptions_def cleanClient_def
        Let_def rc_get_def rc_del_def issue_def returns_def)
  have c: "thrown (lookupRetained ''hello/#'' (fresh ''a'')) = None"
    by (simp add: fresh_def empty_redis_def lookupRetained_def add_def valid_pattern_def
        rc_hkeys_def issue_def returns_def)
  have d: "thrown (storeOfflinePacket packet1 (fresh ''a'')) = None"
    by (simp add: fresh_def empty_redis_def storeOfflinePacket_def packet1_def match_def
        returns_def)
  show ?thesis
    using a b c d completion_signals [of session_a failing packet1 "''hello/#''"]
      completion_signals [of session_a "fresh ''a''" packet1 "''hello/#''"]
    by simp
qed

text \<open>
  C7 as stated fails for \<^verbatim>\<open>streamOfflinePackets\<close>: on a fresh node the operation ends
  without having called its callback at all.
\<close>

theorem completion_signals_counterexample:
  "\<not> clean session_a
   \<and> calls (streamOfflinePackets session_a (fresh ''a'')) = []
   \<and> thrown (streamOfflinePackets session_a (fresh ''a'')) = None"
  by (subst streamOfflinePackets.simps, subst (2) streamOfflinePackets.simps)
    (simp add: session_a_def fresh_def empty_redis_def cleanClient_def rc_rpop_def issue_def
      returns_def)

end
